(* ===== verification/Prelude.thy ===== *)
theory Prelude
  imports Main "HOL-Library.Word"
begin

text \<open>
  Shared vocabulary of the development: the machine types of the Rust source, the outcome type
  that makes a Rust panic a value, byte strings, and the generic facts on lists and options that
  the component theories use.  The interface every byte codec of the program satisfies is the
  locale \<open>codec\<close>, with \<open>fixed_codec\<close> for the ones of constant width.
\<close>

section \<open>Machine types\<close>

type_synonym u8 = "8 word"
type_synonym u32 = "32 word"
type_synonym u64 = "64 word"
type_synonym usize = "64 word"
type_synonym bytes = "u8 list"

text \<open>
  A Rust \<open>String\<close> or \<open>&str\<close> is the sequence of its UTF-8 bytes.
\<close>

type_synonym str = "u8 list"

text \<open>
  A computation either returns or panics (out-of-range index, reversed slice range).  The release
  profile sets \<open>panic = "abort"\<close>, so a panic is the end of the process.
\<close>

datatype 'a outcome = Done 'a | Panic

definition bs :: "string \<Rightarrow> bytes" where
  "bs s = map of_char s"

abbreviation CR :: u8 where "CR \<equiv> 13"
abbreviation LF :: u8 where "LF \<equiv> 10"
abbreviation SP :: u8 where "SP \<equiv> 32"

abbreviation crlf :: bytes where "crlf \<equiv> [CR, LF]"

text \<open>The longest object Rust allocates has \<open>isize::MAX\<close> bytes.\<close>

definition isize_max :: nat where
  "isize_max = 2 ^ 63 - 1"

section \<open>Rule collections\<close>

named_theorems run_simps \<open>equations that evaluate the model on a closed input\<close>

lemmas [run_simps] = bs_def

section \<open>Lists\<close>

lemma length_bs [simp]: "length (bs s) = length s"
  by (simp add: bs_def)

lemma bs_Nil [simp]: "bs [] = []"
  by (simp add: bs_def)

lemma takeWhile_length_nth:
  "x \<in> set xs \<Longrightarrow> xs ! length (takeWhile (\<lambda>y. y \<noteq> x) xs) = x"
  by (induction xs) auto

lemma takeWhile_not_mem [simp]: "x \<notin> set (takeWhile (\<lambda>y. y \<noteq> x) xs)"
  by (auto dest: set_takeWhileD)

lemma takeWhile_neq_append [simp]:
  "x \<notin> set xs \<Longrightarrow> takeWhile (\<lambda>y. y \<noteq> x) (xs @ x # ys) = xs"
  by (induction xs) auto

section \<open>Words\<close>

lemma unat_bound: "unat (w :: 'w::len word) < 2 ^ LENGTH('w)"
  by (rule unsigned_less)

section \<open>Byte codecs\<close>

text \<open>
  What a reader of stored or transmitted bytes relies on: decoding inverts encoding.  The program's
  codecs are the little-endian integers of the value header, the stored value itself, and decimal
  numerals of the wire protocol; each interprets one of these locales in its own theory.
\<close>

locale codec =
  fixes enc :: "'a \<Rightarrow> bytes" and dec :: "bytes \<Rightarrow> 'a option"
  assumes dec_enc: "dec (enc x) = Some x"
begin

lemma enc_inject: "enc x = enc y \<longleftrightarrow> x = y"
  by (metis dec_enc option.inject)

end

locale fixed_codec = codec +
  fixes width :: nat
  assumes enc_width: "length (enc x) = width"
begin

lemma take_enc: "take width (enc x @ rest) = enc x"
  using enc_width [of x] by simp

lemma drop_enc: "drop width (enc x @ rest) = rest"
  using enc_width [of x] by simp

end

end
