(* ===== verification/Rust_Std.thy ===== *)
theory Rust_Std
  imports Prelude
begin

text \<open>
  The parts of Rust's standard library the program calls: slice splitting, UTF-8 validation and
  lossy decoding, decimal parsing and printing of unsigned integers, little-endian byte arrays,
  saturating addition and the system clock.
\<close>

section \<open>Slices\<close>

text \<open>\<open>slice.get(i)\<close>\<close>

definition slice_get :: "'a list \<Rightarrow> nat \<Rightarrow> 'a option" where
  "slice_get xs i = (if i < length xs then Some (xs ! i) else None)"

text \<open>\<open>slice.split(|x| x == sep)\<close>: the empty slice gives one empty piece.\<close>

fun split_on :: "'a \<Rightarrow> 'a list \<Rightarrow> 'a list list" where
  "split_on s [] = [[]]"
| "split_on s (x # xs) =
     (if x = s then [] # split_on s xs
      else (case split_on s xs of [] \<Rightarrow> [[x]] | p # ps \<Rightarrow> (x # p) # ps))"

lemma split_on_not_Nil [simp]: "split_on s xs \<noteq> []"
  by (induction xs) (auto split: list.splits)

lemma split_on_no_sep: "s \<notin> set xs \<Longrightarrow> split_on s xs = [xs]"
  by (induction xs) auto

lemma split_on_append_sep: "s \<notin> set p \<Longrightarrow> split_on s (p @ s # xs) = p # split_on s xs"
  by (induction p) auto

lemma split_on_piece_subset: "p \<in> set (split_on s xs) \<Longrightarrow> set p \<subseteq> set xs"
  by (induction xs arbitrary: p) (fastforce split: list.splits if_splits)+

text \<open>Joining pieces with the separator between them, the inverse of splitting.\<close>

fun join :: "'a \<Rightarrow> 'a list list \<Rightarrow> 'a list" where
  "join s [] = []"
| "join s [p] = p"
| "join s (p # ps) = p @ s # join s ps"

lemma split_on_join:
  "ps \<noteq> [] \<Longrightarrow> \<forall>p \<in> set ps. s \<notin> set p \<Longrightarrow> split_on s (join s ps) = ps"
  by (induction s ps rule: join.induct) (auto simp: split_on_no_sep split_on_append_sep)

lemma join_Cons_Cons [simp]: "join s (p # q # ps) = p @ s # join s (q # ps)"
  by simp

lemma set_join: "set (join s ps) \<subseteq> insert s (\<Union> (set ` set ps))"
  by (induction s ps rule: join.induct) auto

text \<open>\<open>str::contains\<close>\<close>

fun str_contains :: "'a list \<Rightarrow> 'a list \<Rightarrow> bool" where
  "str_contains pat [] \<longleftrightarrow> pat = []"
| "str_contains pat (x # xs) \<longleftrightarrow> take (length pat) (x # xs) = pat \<or> str_contains pat xs"

lemma str_contains_take: "take (length pat) xs = pat \<Longrightarrow> str_contains pat xs"
  by (cases xs) auto

lemma str_contains_append: "str_contains pat ys \<Longrightarrow> str_contains pat (xs @ ys)"
  by (induction xs) auto

lemma split_on_hd: "split_on s xs = p # ps \<Longrightarrow> \<exists>b. xs = p @ b"
proof (induction xs arbitrary: p ps)
  case (Cons x xs)
  then show ?case by (cases "split_on s xs") (auto split: if_splits)
qed simp

lemma split_on_infix: "l \<in> set (split_on s xs) \<Longrightarrow> \<exists>a b. xs = a @ l @ b"
proof (induction xs arbitrary: l)
  case (Cons x xs)
  obtain p ps where sp: "split_on s xs = p # ps" by (cases "split_on s xs") auto
  show ?case
  proof (cases "l \<in> set (split_on s xs)")
    case True
    with Cons.IH obtain a b where "xs = a @ l @ b" by blast
    then have "x # xs = (x # a) @ l @ b" by simp
    then show ?thesis by blast
  next
    case False
    with Cons.prems sp have "l = [] \<or> l = x # p" by (auto split: if_splits)
    moreover have "\<exists>b. xs = p @ b" using sp by (rule split_on_hd)
    ultimately show ?thesis by (metis append.simps)
  qed
qed auto

section \<open>UTF-8\<close>

text \<open>
  One step of the validator \<open>core::str\<close> uses, on a non-empty input: whether the next sequence is a
  well-formed character, and how many bytes it takes.  An ill-formed sequence takes its first byte
  and the continuation bytes that were acceptable so far.
\<close>

definition is_cont :: "u8 \<Rightarrow> bool" where
  "is_cont b \<longleftrightarrow> 128 \<le> b \<and> b < 192"

definition utf8_char_width :: "u8 \<Rightarrow> nat" where
  "utf8_char_width b =
     (if b < 128 then 1
      else if 194 \<le> b \<and> b < 224 then 2
      else if 224 \<le> b \<and> b < 240 then 3
      else if 240 \<le> b \<and> b < 245 then 4
      else 0)"

definition second_of_3 :: "u8 \<Rightarrow> u8 \<Rightarrow> bool" where
  "second_of_3 b c \<longleftrightarrow>
     (if b = 224 then 160 \<le> c \<and> c < 192 else if b = 237 then 128 \<le> c \<and> c < 160 else is_cont c)"

definition second_of_4 :: "u8 \<Rightarrow> u8 \<Rightarrow> bool" where
  "second_of_4 b c \<longleftrightarrow>
     (if b = 240 then 144 \<le> c \<and> c < 192 else if b = 244 then 128 \<le> c \<and> c < 144 else is_cont c)"

definition safe_get :: "bytes \<Rightarrow> nat \<Rightarrow> u8" where
  "safe_get xs i = (if i < length xs then xs ! i else 0)"

fun utf8_next :: "bytes \<Rightarrow> bool \<times> nat" where
  "utf8_next [] = (True, 1)"
| "utf8_next (b # r) =
     (if utf8_char_width b = 1 then (True, 1)
      else if utf8_char_width b = 2 then
        (if is_cont (safe_get r 0) then (True, 2) else (False, 1))
      else if utf8_char_width b = 3 then
        (if \<not> second_of_3 b (safe_get r 0) then (False, 1)
         else if is_cont (safe_get r 1) then (True, 3) else (False, 2))
      else if utf8_char_width b = 4 then
        (if \<not> second_of_4 b (safe_get r 0) then (False, 1)
         else if \<not> is_cont (safe_get r 1) then (False, 2)
         else if is_cont (safe_get r 2) then (True, 4) else (False, 3))
      else (False, 1))"

lemma utf8_next_pos: "0 < snd (utf8_next xs)"
  by (cases xs) auto

function utf8_chunks :: "bytes \<Rightarrow> (bool \<times> bytes) list" where
  "utf8_chunks [] = []"
| "utf8_chunks (b # r) =
     (let (ok, n) = utf8_next (b # r)
      in (ok, take n (b # r)) # utf8_chunks (drop n (b # r)))"
  by pat_completeness auto
termination
proof (relation "measure length", goal_cases)
  case (2 b r x ok n)
  then have "0 < n" using utf8_next_pos [of "b # r"] by (metis snd_conv)
  then show ?case by simp
qed simp

definition utf8_valid :: "bytes \<Rightarrow> bool" where
  "utf8_valid xs \<longleftrightarrow> list_all fst (utf8_chunks xs)"

text \<open>\<open>std::str::from_utf8(..).ok()\<close>\<close>

definition from_utf8 :: "bytes \<Rightarrow> str option" where
  "from_utf8 xs = (if utf8_valid xs then Some xs else None)"

text \<open>\<open>String::from_utf8_lossy\<close>: each ill-formed sequence becomes U+FFFD.\<close>

definition from_utf8_lossy :: "bytes \<Rightarrow> str" where
  "from_utf8_lossy xs =
     concat (map (\<lambda>(ok, c). if ok then c else [239, 191, 189]) (utf8_chunks xs))"

lemma utf8_chunks_set: "(ok, c) \<in> set (utf8_chunks xs) \<Longrightarrow> set c \<subseteq> set xs"
proof (induction xs arbitrary: ok c rule: utf8_chunks.induct)
  case (2 b r)
  obtain ok' n where n: "utf8_next (b # r) = (ok', n)" by fastforce
  have "set (drop n (b # r)) \<subseteq> set (b # r)" and "set (take n (b # r)) \<subseteq> set (b # r)"
    by (auto dest: in_set_dropD in_set_takeD)
  with 2 n show ?case by (auto simp del: utf8_next.simps) blast
qed simp

lemma from_utf8_lossy_set: "set (from_utf8_lossy xs) \<subseteq> set xs \<union> {239, 191, 189}"
  by (auto simp: from_utf8_lossy_def split: if_splits dest!: utf8_chunks_set)

lemma utf8_valid_ascii: "\<forall>b \<in> set xs. b < 128 \<Longrightarrow> utf8_valid xs"
  unfolding utf8_valid_def
  by (induction xs rule: utf8_chunks.induct) (auto simp: utf8_char_width_def)

lemma utf8_chunks_ascii: "\<forall>b \<in> set xs. b < 128 \<Longrightarrow> utf8_chunks xs = map (\<lambda>b. (True, [b])) xs"
  by (induction xs rule: utf8_chunks.induct) (auto simp: utf8_char_width_def)

text \<open>
  The characters of a string, each as its bytes; the ones with the Unicode property
  \<open>White_Space\<close>; and \<open>str::trim\<close>.
\<close>

definition utf8_chars :: "str \<Rightarrow> bytes list" where
  "utf8_chars s = map snd (utf8_chunks s)"

definition is_white_space :: "bytes \<Rightarrow> bool" where
  "is_white_space c \<longleftrightarrow>
     (case c of
        [a] \<Rightarrow> 9 \<le> a \<and> a \<le> 13 \<or> a = 32
      | [a, b] \<Rightarrow> a = 194 \<and> (b = 133 \<or> b = 160)
      | [a, b, d] \<Rightarrow>
          a = 225 \<and> b = 154 \<and> d = 128 \<or>
          a = 226 \<and> b = 128 \<and> (128 \<le> d \<and> d \<le> 138 \<or> d = 168 \<or> d = 169 \<or> d = 175) \<or>
          a = 226 \<and> b = 129 \<and> d = 159 \<or>
          a = 227 \<and> b = 128 \<and> d = 128
      | _ \<Rightarrow> False)"

definition str_trim :: "str \<Rightarrow> str" where
  "str_trim s =
     concat (rev (dropWhile is_white_space (rev (dropWhile is_white_space (utf8_chars s)))))"

lemma dropWhile_none: "\<forall>x \<in> set xs. \<not> P x \<Longrightarrow> dropWhile P xs = xs"
  by (induction xs) auto

lemma str_trim_ascii:
  assumes "\<forall>b \<in> set s. 32 < b \<and> b < 128" shows "str_trim s = s"
proof -
  have chars: "utf8_chars s = map (\<lambda>b. [b]) s"
    using assms by (simp add: utf8_chars_def utf8_chunks_ascii)
  have "\<forall>c \<in> set (utf8_chars s). \<not> is_white_space c"
    using assms by (fastforce simp: chars is_white_space_def word_le_nat_alt word_less_nat_alt)
  then show ?thesis
    by (simp add: str_trim_def dropWhile_none) (simp add: chars)
qed

text \<open>
  \<open>str::to_lowercase\<close>, as far as a comparison with an ASCII literal can tell: ASCII letters, and the
  Kelvin sign, the one other character whose lowercase is an ASCII letter.  Every other character
  has a lowercase with a character outside ASCII, so it equals no ASCII literal; the model keeps it.
\<close>

definition char_to_lowercase :: "bytes \<Rightarrow> bytes" where
  "char_to_lowercase c =
     (if c = [226, 132, 170] then [107]
      else (case c of [a] \<Rightarrow> if 65 \<le> a \<and> a \<le> 90 then [a + 32] else c | _ \<Rightarrow> c))"

definition str_to_lowercase :: "str \<Rightarrow> str" where
  "str_to_lowercase s = concat (map char_to_lowercase (utf8_chars s))"

text \<open>\<open>str::split_whitespace\<close>: the runs of characters between white space; \<open>acc\<close> is the run so far.\<close>

fun whitespace_runs :: "bytes list \<Rightarrow> str \<Rightarrow> str list" where
  "whitespace_runs [] acc = (if acc = [] then [] else [acc])"
| "whitespace_runs (c # cs) acc =
     (if is_white_space c then (if acc = [] then [] else [acc]) @ whitespace_runs cs []
      else whitespace_runs cs (acc @ c))"

definition split_whitespace :: "str \<Rightarrow> str list" where
  "split_whitespace s = whitespace_runs (utf8_chars s) []"

section \<open>Decimal integers\<close>

text \<open>
  \<open>str::parse\<close> for an unsigned type: an optional plus sign, then digits, accumulated with
  \<open>checked_mul\<close> and \<open>checked_add\<close>; \<open>m\<close> is one more than the largest value of the type.
\<close>

definition is_digit :: "u8 \<Rightarrow> bool" where
  "is_digit c \<longleftrightarrow> 48 \<le> c \<and> c \<le> 57"

fun digits_acc :: "nat \<Rightarrow> nat \<Rightarrow> bytes \<Rightarrow> nat option" where
  "digits_acc m acc [] = Some acc"
| "digits_acc m acc (c # cs) =
     (if \<not> is_digit c then None
      else if m \<le> acc * 10 then None
      else if m \<le> acc * 10 + (unat c - 48) then None
      else digits_acc m (acc * 10 + (unat c - 48)) cs)"

definition from_str_uint :: "str \<Rightarrow> 'w::len word option" where
  "from_str_uint s =
     map_option of_nat
       (case s of
          [] \<Rightarrow> None
        | c # r \<Rightarrow>
            if r = [] \<and> (c = 43 \<or> c = 45) then None
            else if c = 43 then digits_acc (2 ^ LENGTH('w)) 0 r
            else digits_acc (2 ^ LENGTH('w)) 0 s)"

text \<open>\<open>to_string\<close> of an unsigned integer.\<close>

fun to_decimal :: "nat \<Rightarrow> str" where
  "to_decimal n =
     (if n < 10 then [48 + of_nat n] else to_decimal (n div 10) @ [48 + of_nat (n mod 10)])"

declare to_decimal.simps [simp del, run_simps]

text \<open>The value of a digit string, on unbounded numbers: the reference for the checked loop.\<close>

definition dec_value :: "nat \<Rightarrow> bytes \<Rightarrow> nat" where
  "dec_value a ds = foldl (\<lambda>a c. a * 10 + (unat c - 48)) a ds"

lemma dec_value_simps [simp]:
  "dec_value a [] = a"
  "dec_value a (c # cs) = dec_value (a * 10 + (unat c - 48)) cs"
  by (simp_all add: dec_value_def)

lemma dec_value_ge: "a \<le> dec_value a ds"
proof (induction ds arbitrary: a)
  case (Cons c cs)
  have "a \<le> a * 10 + (unat c - 48)" by simp
  also have "\<dots> \<le> dec_value a (c # cs)" using Cons.IH by simp
  finally show ?case .
qed simp

lemma digits_acc_eq:
  "a < m \<Longrightarrow> digits_acc m a ds =
     (if list_all is_digit ds \<and> dec_value a ds < m then Some (dec_value a ds) else None)"
proof (induction ds arbitrary: a)
  case (Cons c cs)
  let ?b = "a * 10 + (unat c - 48)"
  have "?b \<le> dec_value ?b cs" by (rule dec_value_ge)
  then show ?case using Cons.IH [of ?b] by auto
qed simp

lemma from_str_uint_eq:
  "(from_str_uint s :: 'w::len word option) =
     (let ds = (case s of c # r \<Rightarrow> (if c = 43 then r else s) | [] \<Rightarrow> [])
      in if ds \<noteq> [] \<and> list_all is_digit ds \<and> dec_value 0 ds < 2 ^ LENGTH('w)
         then Some (of_nat (dec_value 0 ds)) else None)"
  by (auto simp: from_str_uint_def digits_acc_eq is_digit_def Let_def simp del: digits_acc.simps
      split: list.splits)

lemma to_decimal_not_Nil [simp]: "to_decimal n \<noteq> []"
  by (subst to_decimal.simps) simp

lemma digit_of_nat: "d < 10 \<Longrightarrow> is_digit (48 + of_nat d) \<and> unat (48 + of_nat d :: u8) = 48 + d"
proof -
  assume d: "d < 10"
  have u: "unat (48 + of_nat d :: u8) = 48 + d"
    using d by (simp add: unat_word_ariths unat_of_nat)
  with d show ?thesis
    by (auto simp: is_digit_def word_le_nat_alt)
qed

lemma to_decimal_digits: "list_all is_digit (to_decimal n)"
proof (induction n rule: to_decimal.induct)
  case (1 n)
  then show ?case
    by (subst to_decimal.simps) (simp add: digit_of_nat)
qed

lemma to_decimal_value: "dec_value 0 (to_decimal n) = n"
proof (induction n rule: to_decimal.induct)
  case (1 n)
  have app: "dec_value 0 (xs @ [c]) = dec_value 0 xs * 10 + (unat c - 48)" for xs c
    by (simp add: dec_value_def)
  show ?case
  proof (cases "n < 10")
    case True
    then show ?thesis by (subst to_decimal.simps) (simp add: digit_of_nat)
  next
    case False
    then show ?thesis
      by (subst to_decimal.simps) (simp add: app 1 digit_of_nat)
  qed
qed

lemma is_digit_ascii: "is_digit c \<Longrightarrow> 32 < c \<and> c < 128 \<and> c \<noteq> 13 \<and> c \<noteq> 32 \<and> c \<noteq> 43"
  by (auto simp: is_digit_def word_le_nat_alt word_less_nat_alt)

lemma to_decimal_ascii: "b \<in> set (to_decimal n) \<Longrightarrow> is_digit b"
  using to_decimal_digits [of n] by (simp add: list_all_iff)

lemma from_str_uint_to_decimal: "from_str_uint (to_decimal (unat (w :: 'w::len word))) = Some w"
proof -
  let ?d = "to_decimal (unat w)"
  obtain c r where d: "?d = c # r" by (cases ?d) auto
  have "is_digit c" using to_decimal_ascii [of c "unat w"] d by simp
  then have "c \<noteq> 43" by (simp add: is_digit_ascii)
  moreover have "unat w < 2 ^ LENGTH('w)" by (rule unsigned_less)
  ultimately show ?thesis
    using to_decimal_digits [of "unat w"] to_decimal_value [of "unat w"]
    by (simp add: from_str_uint_eq d)
qed

section \<open>Little-endian bytes\<close>

fun to_le :: "nat \<Rightarrow> nat \<Rightarrow> bytes" where
  "to_le 0 x = []"
| "to_le (Suc n) x = of_nat (x mod 256) # to_le n (x div 256)"

fun from_le :: "bytes \<Rightarrow> nat" where
  "from_le [] = 0"
| "from_le (b # r) = unat b + 256 * from_le r"

definition u64_to_le_bytes :: "u64 \<Rightarrow> bytes" where
  "u64_to_le_bytes w = to_le 8 (unat w)"

definition u64_from_le_bytes :: "bytes \<Rightarrow> u64" where
  "u64_from_le_bytes b = of_nat (from_le b)"

definition u32_to_le_bytes :: "u32 \<Rightarrow> bytes" where
  "u32_to_le_bytes w = to_le 4 (unat w)"

definition u32_from_le_bytes :: "bytes \<Rightarrow> u32" where
  "u32_from_le_bytes b = of_nat (from_le b)"

text \<open>
  The \<open>try_into\<close> that turns a slice into the fixed-size array these functions take: it fails on
  any other length.
\<close>

definition try_into_array :: "nat \<Rightarrow> bytes \<Rightarrow> bytes option" where
  "try_into_array n b = (if length b = n then Some b else None)"

lemma to_le_unfold:
  "to_le (numeral k) x = of_nat (x mod 256) # to_le (pred_numeral k) (x div 256)"
  by (subst numeral_eq_Suc) (rule to_le.simps(2))

lemma length_to_le [simp]: "length (to_le n x) = n"
  by (induction n arbitrary: x) auto

lemma from_le_to_le: "from_le (to_le n x) = x mod 256 ^ n"
proof (induction n arbitrary: x)
  case (Suc n)
  have "x mod (256 * 256 ^ n) = 256 * (x div 256 mod 256 ^ n) + x mod 256"
    by (rule mod_mult2_eq)
  then show ?case by (simp add: Suc unat_of_nat)
qed simp

lemma to_le_from_le: "to_le (length b) (from_le b) = b"
proof (induction b)
  case (Cons c r)
  have "unat c < 256" using unat_bound [of c] by simp
  then have "(unat c + 256 * from_le r) mod 256 = unat c"
    and "(unat c + 256 * from_le r) div 256 = from_le r" by simp_all
  then show ?case using Cons by simp
qed simp

lemma from_le_bound: "from_le b < 256 ^ length b"
proof (induction b)
  case (Cons c r)
  have "unat c < 256" using unat_bound [of c] by simp
  with Cons show ?case by simp
qed simp

interpretation le64: fixed_codec u64_to_le_bytes
  "\<lambda>b. map_option u64_from_le_bytes (try_into_array 8 b)" 8
proof unfold_locales
  fix w :: u64
  have "unat w mod 256 ^ 8 = unat w"
    using unat_bound [of w] by simp
  then show "map_option u64_from_le_bytes (try_into_array 8 (u64_to_le_bytes w)) = Some w"
    by (simp add: try_into_array_def u64_from_le_bytes_def u64_to_le_bytes_def from_le_to_le)
qed (simp add: u64_to_le_bytes_def)

interpretation le32: fixed_codec u32_to_le_bytes
  "\<lambda>b. map_option u32_from_le_bytes (try_into_array 4 b)" 4
proof unfold_locales
  fix w :: u32
  have "unat w mod 256 ^ 4 = unat w"
    using unat_bound [of w] by simp
  then show "map_option u32_from_le_bytes (try_into_array 4 (u32_to_le_bytes w)) = Some w"
    by (simp add: try_into_array_def u32_from_le_bytes_def u32_to_le_bytes_def from_le_to_le)
qed (simp add: u32_to_le_bytes_def)

lemma u64_le_from_to: "length b = 8 \<Longrightarrow> u64_to_le_bytes (u64_from_le_bytes b) = b"
  using from_le_bound [of b] to_le_from_le [of b]
  by (simp add: u64_to_le_bytes_def u64_from_le_bytes_def unat_of_nat)

lemma u32_le_from_to: "length b = 4 \<Longrightarrow> u32_to_le_bytes (u32_from_le_bytes b) = b"
  using from_le_bound [of b] to_le_from_le [of b]
  by (simp add: u32_to_le_bytes_def u32_from_le_bytes_def unat_of_nat)

section \<open>Arithmetic and time\<close>

definition saturating_add :: "'w::len word \<Rightarrow> 'w word \<Rightarrow> 'w word" where
  "saturating_add a b = (if 2 ^ LENGTH('w) \<le> unat a + unat b then - 1 else a + b)"

lemma unat_saturating_add:
  "unat (saturating_add a b :: 'w::len word) = min (2 ^ LENGTH('w) - 1) (unat a + unat b)"
proof (cases "2 ^ LENGTH('w) \<le> unat a + unat b")
  case True
  then show ?thesis by (simp add: saturating_add_def unsigned_minus_1_eq_mask mask_eq_exp_minus_1)
next
  case False
  then show ?thesis by (simp add: saturating_add_def unat_word_ariths)
qed

text \<open>
  \<open>SystemTime\<close> as nanoseconds relative to the epoch (negative before it).  The clock is an input
  of the program: \<open>clk i\<close> is the reading the \<open>i\<close>-th call of \<open>SystemTime::now\<close> returns.
\<close>

type_synonym system_time = int
type_synonym clock = "nat \<Rightarrow> system_time"

text \<open>
  \<open>t.duration_since(UNIX_EPOCH)\<close>: an error before the epoch; the whole seconds of a
  \<open>Duration\<close> are a \<open>u64\<close>.
\<close>

definition secs_since_epoch :: "system_time \<Rightarrow> u64 option" where
  "secs_since_epoch t = (if t < 0 then None else Some (of_int (t div 1000000000)))"

lemmas [run_simps] = slice_get_def is_digit_def from_str_uint_def utf8_valid_def from_utf8_def
  from_utf8_lossy_def is_cont_def utf8_char_width_def second_of_3_def second_of_4_def safe_get_def
  u64_to_le_bytes_def u64_from_le_bytes_def u32_to_le_bytes_def u32_from_le_bytes_def
  try_into_array_def utf8_chars_def is_white_space_def str_trim_def split_whitespace_def char_to_lowercase_def
  str_to_lowercase_def saturating_add_def secs_since_epoch_def to_le_unfold

end
