(* ===== verification/Errors.thy ===== *)
theory Errors
  imports Rust_Std
begin

text \<open>
  The error types of \<open>src/error.rs\<close> and the messages their derived \<open>Display\<close> prints.  The error
  value of the \<open>rust_rocksdb\<close> crate is the type parameter \<open>'e\<close>, and the text it displays as is the
  argument \<open>db_msg\<close>; the I/O error of the operating system is the parameter \<open>'i\<close>.
\<close>

datatype protocol_error =
    InvalidCommand str
  | InvalidKey str
  | InvalidValue str
  | InvalidFlags
  | InvalidExptime
  | InvalidBytesLength
  | InvalidNumericValue
  | KeyTooLong
  | ValueTooLarge
  | UnexpectedData
  | IncompleteCommand

datatype 'e storage_error =
    RocksDb 'e
  | Internal str
  | Encoding str
  | Decoding str
  | NotFound
  | AlreadyExists
  | NotNumeric
  | NumericOverflow
  | NumericUnderflow

datatype ('e, 'i) petracache_error =
    Protocol protocol_error
  | Storage "'e storage_error"
  | Io 'i
  | Config str

primrec protocol_error_to_string :: "protocol_error \<Rightarrow> str" where
  "protocol_error_to_string (InvalidCommand s) = bs ''Invalid command: '' @ s"
| "protocol_error_to_string (InvalidKey s) = bs ''Invalid key: '' @ s"
| "protocol_error_to_string (InvalidValue s) = bs ''Invalid value: '' @ s"
| "protocol_error_to_string InvalidFlags = bs ''Invalid flags''"
| "protocol_error_to_string InvalidExptime = bs ''Invalid exptime''"
| "protocol_error_to_string InvalidBytesLength = bs ''Invalid bytes length''"
| "protocol_error_to_string InvalidNumericValue = bs ''Invalid numeric value''"
| "protocol_error_to_string KeyTooLong = bs ''Key too long (max 250 bytes)''"
| "protocol_error_to_string ValueTooLarge = bs ''Value too large''"
| "protocol_error_to_string UnexpectedData = bs ''Unexpected data''"
| "protocol_error_to_string IncompleteCommand = bs ''Incomplete command''"

primrec storage_error_to_string :: "('e \<Rightarrow> str) \<Rightarrow> 'e storage_error \<Rightarrow> str" where
  "storage_error_to_string db_msg (RocksDb e) = bs ''RocksDB error: '' @ db_msg e"
| "storage_error_to_string db_msg (Internal s) = bs ''Internal error: '' @ s"
| "storage_error_to_string db_msg (Encoding s) = bs ''Value encoding error: '' @ s"
| "storage_error_to_string db_msg (Decoding s) = bs ''Value decoding error: '' @ s"
| "storage_error_to_string db_msg NotFound = bs ''Key not found''"
| "storage_error_to_string db_msg AlreadyExists = bs ''Key already exists''"
| "storage_error_to_string db_msg NotNumeric = bs ''Not a numeric value''"
| "storage_error_to_string db_msg NumericOverflow = bs ''Numeric overflow''"
| "storage_error_to_string db_msg NumericUnderflow = bs ''Numeric underflow''"

primrec petracache_error_to_string ::
    "('e \<Rightarrow> str) \<Rightarrow> ('i \<Rightarrow> str) \<Rightarrow> ('e, 'i) petracache_error \<Rightarrow> str" where
  "petracache_error_to_string db_msg io_msg (Protocol e) =
     bs ''Protocol error: '' @ protocol_error_to_string e"
| "petracache_error_to_string db_msg io_msg (Storage e) =
     bs ''Storage error: '' @ storage_error_to_string db_msg e"
| "petracache_error_to_string db_msg io_msg (Io e) = bs ''IO error: '' @ io_msg e"
| "petracache_error_to_string db_msg io_msg (Config s) = bs ''Configuration error: '' @ s"

text \<open>The text a protocol error carries, for the three errors that quote the client.\<close>

fun quoted_text :: "protocol_error \<Rightarrow> str" where
  "quoted_text (InvalidCommand s) = s"
| "quoted_text (InvalidKey s) = s"
| "quoted_text (InvalidValue s) = s"
| "quoted_text _ = []"

lemma protocol_error_CR:
  "CR \<in> set (protocol_error_to_string e) \<longleftrightarrow> CR \<in> set (quoted_text e)"
  by (cases e) (simp_all add: bs_def)

end
