(* ===== verification/Command.thy ===== *)
theory Command
  imports Errors
begin

text \<open>
  The parsed commands of \<open>src/protocol/command.rs\<close> and the test a key has to pass.
\<close>

definition MAX_KEY_LENGTH :: nat where
  "MAX_KEY_LENGTH = 250"

text \<open>
  \<open>Set\<close> has the fields key, flags, exptime, data and noreply, in the order of the source.
\<close>

datatype command =
    Get "bytes list"
  | Set bytes u32 u64 bytes bool
  | Delete bytes bool
  | Version
  | Quit

fun is_noreply :: "command \<Rightarrow> bool" where
  "is_noreply (Set key flags exptime data noreply) = noreply"
| "is_noreply (Delete key noreply) = noreply"
| "is_noreply _ = False"

definition is_valid_key :: "bytes \<Rightarrow> bool" where
  "is_valid_key key =
     (if key = [] \<or> MAX_KEY_LENGTH < length key then False
      else list_all (\<lambda>b. 32 < b \<and> b < 127) key)"

text \<open>What the rest of the server may assume of a command the parser hands it.\<close>

fun command_wf :: "command \<Rightarrow> bool" where
  "command_wf (Get keys) \<longleftrightarrow> keys \<noteq> [] \<and> list_all is_valid_key keys"
| "command_wf (Set key flags exptime data noreply) \<longleftrightarrow> is_valid_key key"
| "command_wf (Delete key noreply) \<longleftrightarrow> is_valid_key key"
| "command_wf Version \<longleftrightarrow> True"
| "command_wf Quit \<longleftrightarrow> True"

lemma is_valid_key_not_Nil: "is_valid_key k \<Longrightarrow> k \<noteq> []"
  by (auto simp: is_valid_key_def split: if_splits)

lemma is_valid_key_byte: "is_valid_key k \<Longrightarrow> b \<in> set k \<Longrightarrow> 32 < b \<and> b < 127"
  by (auto simp: is_valid_key_def list_all_iff split: if_splits)

lemma is_valid_key_no_sep: "is_valid_key k \<Longrightarrow> SP \<notin> set k \<and> CR \<notin> set k \<and> LF \<notin> set k"
  using is_valid_key_byte [of k] by fastforce

lemmas [run_simps] = is_valid_key_def MAX_KEY_LENGTH_def

end
