(* ===== verification/Parser.thy ===== *)
theory Parser
  imports Command
begin

text \<open>
  The memcached ASCII parser of \<open>src/protocol/parser.rs\<close>.  The search \<open>memchr::memchr\<close> of the
  \<open>memchr\<close> crate is the argument \<open>mc\<close> of every function that reaches it; what the parser relies on
  is the locale \<open>memchr_crate\<close> below.  Offsets into a buffer are natural numbers; what the source
  computes from a length the client declares is kept at the 64 bits of \<open>usize\<close>, where the release
  profile wraps around, and the indexing that can then go wrong is a \<open>Panic\<close>.
\<close>

section \<open>Definitions\<close>

type_synonym memchr = "u8 \<Rightarrow> bytes \<Rightarrow> nat option"

definition to_ascii_lowercase :: "u8 \<Rightarrow> u8" where
  "to_ascii_lowercase b = (if 65 \<le> b \<and> b \<le> 90 then b + 32 else b)"

definition cmd_eq :: "bytes \<Rightarrow> bytes \<Rightarrow> bool" where
  "cmd_eq cmd expected \<longleftrightarrow>
     length cmd = length expected \<and>
     list_all (\<lambda>(a, b). to_ascii_lowercase a = b) (zip cmd expected)"

datatype parse_result =
    Complete command usize
  | NeedMoreData
  | Error protocol_error

record pending_storage_command =
  ps_key :: bytes
  ps_flags :: u32
  ps_exptime :: u64
  ps_bytes :: usize
  ps_noreply :: bool
  ps_command_line_end :: nat

text \<open>\<open>buf[i]\<close> and \<open>&buf[a..b]\<close>, with the panics of slice indexing.\<close>

definition slice_index :: "'a list \<Rightarrow> usize \<Rightarrow> 'a outcome" where
  "slice_index xs i = (if unat i < length xs then Done (xs ! unat i) else Panic)"

definition slice_range :: "'a list \<Rightarrow> usize \<Rightarrow> usize \<Rightarrow> 'a list outcome" where
  "slice_range xs a b =
     (if a \<le> b \<and> unat b \<le> length xs then Done (drop (unat a) (take (unat b) xs)) else Panic)"

definition find_crlf :: "memchr \<Rightarrow> bytes \<Rightarrow> nat option" where
  "find_crlf mc buf =
     (case mc CR buf of
        None \<Rightarrow> None
      | Some i \<Rightarrow> if slice_get buf (i + 1) = Some LF then Some i else None)"

definition parse_u32 :: "bytes \<Rightarrow> u32 option" where
  "parse_u32 b = Option.bind (from_utf8 b) from_str_uint"

definition parse_u64 :: "bytes \<Rightarrow> u64 option" where
  "parse_u64 b = Option.bind (from_utf8 b) from_str_uint"

definition parse_usize :: "bytes \<Rightarrow> usize option" where
  "parse_usize b = Option.bind (from_utf8 b) from_str_uint"

text \<open>
  The iterator over the words of a line is the list of the words left: \<open>parts.next()\<close> is its head,
  \<open>tl\<close> what stays, and an exhausted iterator stays exhausted.
\<close>

definition next_part :: "bytes list \<Rightarrow> bytes option" where
  "next_part parts = (case parts of [] \<Rightarrow> None | p # _ \<Rightarrow> Some p)"

definition is_noreply_part :: "bytes option \<Rightarrow> bool" where
  "is_noreply_part p = (case p of None \<Rightarrow> False | Some s \<Rightarrow> s = bs ''noreply'')"

fun get_keys :: "bytes list \<Rightarrow> bytes list \<Rightarrow> protocol_error + bytes list" where
  "get_keys [] keys = Inr keys"
| "get_keys (part # parts) keys =
     (if part = [] then get_keys parts keys
      else if \<not> is_valid_key part then
        (if MAX_KEY_LENGTH < length part then Inl KeyTooLong
         else Inl (InvalidKey (from_utf8_lossy part)))
      else get_keys parts (keys @ [part]))"

definition parse_get :: "bytes list \<Rightarrow> usize \<Rightarrow> parse_result" where
  "parse_get parts consumed =
     (case get_keys parts [] of
        Inl e \<Rightarrow> Error e
      | Inr keys \<Rightarrow>
          if keys = [] then Error (InvalidCommand (bs ''get requires at least one key''))
          else Complete (Get keys) consumed)"

definition parse_set :: "bytes list \<Rightarrow> bytes \<Rightarrow> nat \<Rightarrow> parse_result outcome" where
  "parse_set parts buf line_end =
     (case next_part parts of
        None \<Rightarrow> Done (Error (InvalidCommand (bs ''missing key'')))
      | Some key \<Rightarrow>
      if key = [] then Done (Error (InvalidCommand (bs ''missing key'')))
      else if \<not> is_valid_key key then
        (if MAX_KEY_LENGTH < length key then Done (Error KeyTooLong)
         else Done (Error (InvalidKey (from_utf8_lossy key))))
      else
      (case Option.bind (next_part (tl parts)) parse_u32 of
         None \<Rightarrow> Done (Error InvalidFlags)
       | Some flags \<Rightarrow>
      (case Option.bind (next_part (tl (tl parts))) parse_u64 of
         None \<Rightarrow> Done (Error InvalidExptime)
       | Some exptime \<Rightarrow>
      (case Option.bind (next_part (tl (tl (tl parts)))) parse_usize of
         None \<Rightarrow> Done (Error InvalidBytesLength)
       | Some n \<Rightarrow>
      (let noreply = is_noreply_part (next_part (tl (tl (tl (tl parts)))));
           data_start = of_nat line_end + 2;
           data_end = data_start + n;
           total_needed = data_end + 2
       in if length buf < unat total_needed then Done NeedMoreData
          else
          (case slice_index buf data_end of
             Panic \<Rightarrow> Panic
           | Done c \<Rightarrow>
               if c \<noteq> CR then Done (Error UnexpectedData)
               else
          (case slice_index buf (data_end + 1) of
             Panic \<Rightarrow> Panic
           | Done c' \<Rightarrow>
               if c' \<noteq> LF then Done (Error UnexpectedData)
               else
          (case slice_range buf data_start data_end of
             Panic \<Rightarrow> Panic
           | Done data \<Rightarrow>
               Done (Complete (Set key flags exptime data noreply) total_needed)))))))))"

fun delete_noreply :: "bytes list \<Rightarrow> bool \<Rightarrow> bool" where
  "delete_noreply [] noreply = noreply"
| "delete_noreply (part # parts) noreply =
     (if part = [] then delete_noreply parts noreply
      else if part = bs ''noreply'' then delete_noreply parts True
      else delete_noreply parts noreply)"

definition parse_delete :: "bytes list \<Rightarrow> usize \<Rightarrow> parse_result" where
  "parse_delete parts consumed =
     (case next_part parts of
        None \<Rightarrow> Error (InvalidCommand (bs ''delete requires a key''))
      | Some key \<Rightarrow>
      if key = [] then Error (InvalidCommand (bs ''delete requires a key''))
      else if \<not> is_valid_key key then
        (if MAX_KEY_LENGTH < length key then Error KeyTooLong
         else Error (InvalidKey (from_utf8_lossy key)))
      else Complete (Delete key (delete_noreply (tl parts) False)) consumed)"

definition parse :: "memchr \<Rightarrow> bytes \<Rightarrow> parse_result outcome" where
  "parse mc buf =
     (case find_crlf mc buf of
        None \<Rightarrow> Done NeedMoreData
      | Some line_end \<Rightarrow>
      (let line = take line_end buf; parts = split_on SP line
       in (case next_part parts of
             None \<Rightarrow> Done (Error (InvalidCommand (bs ''empty command'')))
           | Some cmd_name \<Rightarrow>
           if cmd_name = [] then Done (Error (InvalidCommand (bs ''empty command'')))
           else if cmd_eq cmd_name (bs ''get'') then Done (parse_get (tl parts) (of_nat line_end + 2))
           else if cmd_eq cmd_name (bs ''set'') then parse_set (tl parts) buf line_end
           else if cmd_eq cmd_name (bs ''delete'') then
             Done (parse_delete (tl parts) (of_nat line_end + 2))
           else if cmd_eq cmd_name (bs ''version'') then
             Done (Complete Version (of_nat line_end + 2))
           else if cmd_eq cmd_name (bs ''quit'') then Done (Complete Quit (of_nat line_end + 2))
           else Done (Error (InvalidCommand (from_utf8_lossy cmd_name))))))"

definition parse_storage_data :: "bytes \<Rightarrow> pending_storage_command \<Rightarrow> parse_result outcome" where
  "parse_storage_data buf pending =
     (let data_start = of_nat (ps_command_line_end pending) + 2;
          data_end = data_start + ps_bytes pending;
          total_needed = data_end + 2
      in if length buf < unat total_needed then Done NeedMoreData
         else
         (case slice_index buf data_end of
            Panic \<Rightarrow> Panic
          | Done c \<Rightarrow>
              if c \<noteq> CR then Done (Error UnexpectedData)
              else
         (case slice_index buf (data_end + 1) of
            Panic \<Rightarrow> Panic
          | Done c' \<Rightarrow>
              if c' \<noteq> LF then Done (Error UnexpectedData)
              else
         (case slice_range buf data_start data_end of
            Panic \<Rightarrow> Panic
          | Done data \<Rightarrow>
              Done (Complete
                (Set (ps_key pending) (ps_flags pending) (ps_exptime pending) data
                   (ps_noreply pending)) total_needed)))))"

definition parse_storage_command_line ::
    "memchr \<Rightarrow> bytes \<Rightarrow> protocol_error + pending_storage_command option" where
  "parse_storage_command_line mc buf =
     (case find_crlf mc buf of
        None \<Rightarrow> Inr None
      | Some line_end \<Rightarrow>
      (let line = take line_end buf; parts = split_on SP line
       in (case next_part parts of
             None \<Rightarrow> Inl (InvalidCommand (bs ''empty command''))
           | Some cmd_name \<Rightarrow>
           if cmd_name = [] then Inl (InvalidCommand (bs ''empty command''))
           else if \<not> cmd_eq cmd_name (bs ''set'') then Inr None
           else
           (case next_part (tl parts) of
              None \<Rightarrow> Inl (InvalidCommand (bs ''missing key''))
            | Some key \<Rightarrow>
            if key = [] then Inl (InvalidCommand (bs ''missing key''))
            else if \<not> is_valid_key key then
              (if MAX_KEY_LENGTH < length key then Inl KeyTooLong
               else Inl (InvalidKey (from_utf8_lossy key)))
            else
            (case Option.bind (next_part (tl (tl parts))) parse_u32 of
               None \<Rightarrow> Inl InvalidFlags
             | Some flags \<Rightarrow>
            (case Option.bind (next_part (tl (tl (tl parts)))) parse_u64 of
               None \<Rightarrow> Inl InvalidExptime
             | Some exptime \<Rightarrow>
            (case Option.bind (next_part (tl (tl (tl (tl parts))))) parse_usize of
               None \<Rightarrow> Inl InvalidBytesLength
             | Some n \<Rightarrow>
               Inr (Some \<lparr>ps_key = key, ps_flags = flags, ps_exptime = exptime, ps_bytes = n,
                 ps_noreply = is_noreply_part (next_part (tl (tl (tl (tl (tl parts)))))),
                 ps_command_line_end = line_end\<rparr>))))))))"

lemmas [run_simps] = to_ascii_lowercase_def cmd_eq_def slice_index_def slice_range_def find_crlf_def
  parse_u32_def parse_u64_def parse_usize_def next_part_def is_noreply_part_def parse_get_def
  parse_set_def parse_delete_def parse_def parse_storage_data_def parse_storage_command_line_def

text \<open>A search loop that does what the documentation of \<open>memchr\<close> says.\<close>

fun memchr_loop :: memchr where
  "memchr_loop b [] = None"
| "memchr_loop b (x # xs) = (if x = b then Some 0 else map_option Suc (memchr_loop b xs))"

section \<open>Line search\<close>

lemma slice_get_Some: "slice_get xs i = Some x \<longleftrightarrow> i < length xs \<and> xs ! i = x"
  by (auto simp: slice_get_def)

lemma find_crlf_bounds:
  "find_crlf mc buf = Some i \<Longrightarrow> i + 1 < length buf \<and> buf ! (i + 1) = LF"
  by (auto simp: find_crlf_def slice_get_Some split: option.splits if_splits)

text \<open>
  The documented behaviour of \<open>memchr\<close>: the position of the first occurrence.
\<close>

locale memchr_crate =
  fixes mc :: memchr
  assumes memchr_first:
    "mc b xs = (if b \<in> set xs then Some (length (takeWhile (\<lambda>x. x \<noteq> b) xs)) else None)"
begin

lemma find_crlf_line: "CR \<notin> set line \<Longrightarrow> find_crlf mc (line @ CR # LF # rest) = Some (length line)"
  by (simp add: find_crlf_def memchr_first slice_get_def nth_append)

lemma find_crlf_SomeD:
  assumes "find_crlf mc buf = Some i"
  shows "\<exists>line rest. buf = line @ CR # LF # rest \<and> CR \<notin> set line \<and> length line = i"
proof -
  let ?line = "takeWhile (\<lambda>x. x \<noteq> CR) buf"
  from assms have i: "i = length ?line" and mem: "CR \<in> set buf"
    by (auto simp: find_crlf_def memchr_first split: option.splits if_splits)
  from assms have b: "i + 1 < length buf" "buf ! (i + 1) = LF"
    by (auto dest: find_crlf_bounds)
  have "buf = take i buf @ buf ! i # buf ! (i + 1) # drop (i + 2) buf"
    using b by (metis Cons_nth_drop_Suc Suc_eq_plus1 Suc_lessD add_2_eq_Suc' append_take_drop_id)
  moreover have "take i buf = ?line"
    using i by (metis takeWhile_eq_take)
  moreover have "buf ! i = CR"
    using mem i takeWhile_length_nth by metis
  ultimately have "buf = ?line @ CR # LF # drop (i + 2) buf"
    using b(2) by simp
  with i show ?thesis by (metis takeWhile_not_mem)
qed

lemma find_crlf_append:
  "find_crlf mc buf = Some i \<Longrightarrow> find_crlf mc (buf @ ys) = Some i"
  using find_crlf_SomeD [of buf i] by (auto simp: find_crlf_line)

lemma find_crlf_lone_CR:
  "CR \<notin> set line \<Longrightarrow> c \<noteq> LF \<Longrightarrow> find_crlf mc (line @ CR # c # rest) = None"
  by (simp add: find_crlf_def memchr_first slice_get_def nth_append)

end

lemma memchr_loop_first:
  "memchr_loop b xs = (if b \<in> set xs then Some (length (takeWhile (\<lambda>x. x \<noteq> b) xs)) else None)"
  by (induction xs) auto

interpretation loop: memchr_crate memchr_loop
  by unfold_locales (rule memchr_loop_first)

section \<open>The two ways to a storage command\<close>

text \<open>
  \<open>parse_set\<close> reads the command line and the data block in one go; after a short read the
  connection keeps the parsed line in a \<open>PendingStorageCommand\<close> and finishes with
  \<open>parse_storage_data\<close>.  On the same buffer both give the same result.
\<close>

definition set_header :: "bytes list \<Rightarrow> nat \<Rightarrow> protocol_error + pending_storage_command" where
  "set_header parts line_end =
     (case next_part parts of
        None \<Rightarrow> Inl (InvalidCommand (bs ''missing key''))
      | Some key \<Rightarrow>
      if key = [] then Inl (InvalidCommand (bs ''missing key''))
      else if \<not> is_valid_key key then
        (if MAX_KEY_LENGTH < length key then Inl KeyTooLong
         else Inl (InvalidKey (from_utf8_lossy key)))
      else
      (case Option.bind (next_part (tl parts)) parse_u32 of
         None \<Rightarrow> Inl InvalidFlags
       | Some flags \<Rightarrow>
      (case Option.bind (next_part (tl (tl parts))) parse_u64 of
         None \<Rightarrow> Inl InvalidExptime
       | Some exptime \<Rightarrow>
      (case Option.bind (next_part (tl (tl (tl parts)))) parse_usize of
         None \<Rightarrow> Inl InvalidBytesLength
       | Some n \<Rightarrow>
         Inr \<lparr>ps_key = key, ps_flags = flags, ps_exptime = exptime, ps_bytes = n,
           ps_noreply = is_noreply_part (next_part (tl (tl (tl (tl parts))))),
           ps_command_line_end = line_end\<rparr>))))"

lemma parse_set_header:
  "parse_set parts buf line_end =
     (case set_header parts line_end of
        Inl e \<Rightarrow> Done (Error e) | Inr p \<Rightarrow> parse_storage_data buf p)"
  by (simp add: parse_set_def set_header_def parse_storage_data_def Let_def
      split: option.split cong: outcome.case_cong if_cong)

lemma parse_storage_command_line_header:
  "parse_storage_command_line mc buf =
     (case find_crlf mc buf of
        None \<Rightarrow> Inr None
      | Some line_end \<Rightarrow>
      (let parts = split_on SP (take line_end buf)
       in (case next_part parts of
             None \<Rightarrow> Inl (InvalidCommand (bs ''empty command''))
           | Some cmd_name \<Rightarrow>
             if cmd_name = [] then Inl (InvalidCommand (bs ''empty command''))
             else if \<not> cmd_eq cmd_name (bs ''set'') then Inr None
             else map_sum id Some (set_header (tl parts) line_end))))"
  by (simp add: parse_storage_command_line_def set_header_def Let_def split: option.split)

lemma cmd_eq_unique: "cmd_eq c e \<Longrightarrow> cmd_eq c e' \<Longrightarrow> e = e'"
  unfolding cmd_eq_def by (rule nth_equalityI) (auto simp: list_all_length)

lemma set_not_get: "cmd_eq c (bs ''set'') \<Longrightarrow> \<not> cmd_eq c (bs ''get'')"
proof -
  have "bs ''set'' \<noteq> bs ''get''" by (simp add: bs_def)
  then show "cmd_eq c (bs ''set'') \<Longrightarrow> \<not> cmd_eq c (bs ''get'')"
    by (blast dest: cmd_eq_unique)
qed

lemma map_sum_Inr_Some: "map_sum id Some s = Inr (Some p) \<longleftrightarrow> s = Inr p"
  by (cases s) auto

lemma set_header_Inr:
  "set_header parts line_end = Inr p \<Longrightarrow> ps_command_line_end p = line_end \<and> is_valid_key (ps_key p)"
  by (auto simp: set_header_def split: option.splits if_splits)

lemma parse_pending:
  "parse_storage_command_line mc buf = Inr (Some p) \<Longrightarrow> parse mc buf = parse_storage_data buf p"
  by (auto simp: parse_storage_command_line_header parse_def Let_def parse_set_header
      map_sum_Inr_Some set_not_get split: option.splits if_splits)

lemma pending_line:
  "parse_storage_command_line mc buf = Inr (Some p) \<Longrightarrow>
     find_crlf mc buf = Some (ps_command_line_end p) \<and> is_valid_key (ps_key p)"
  by (auto simp: parse_storage_command_line_header Let_def map_sum_Inr_Some
      dest: set_header_Inr split: option.splits if_splits)

lemma parse_not_pending:
  assumes "\<nexists>p. parse_storage_command_line mc buf = Inr (Some p)"
  shows "parse mc buf = Done NeedMoreData \<and> find_crlf mc buf = None \<or>
    (\<exists>e. parse mc buf = Done (Error e)) \<or>
    (\<exists>cmd i. find_crlf mc buf = Some i \<and> parse mc buf = Done (Complete cmd (of_nat i + 2)) \<and>
       (\<forall>k f x d r. cmd \<noteq> Set k f x d r))"
  using assms
  by (auto simp: parse_storage_command_line_header parse_def parse_set_header parse_get_def
      parse_delete_def Let_def map_sum_Inr_Some split: option.splits sum.splits if_splits)

section \<open>The data block at 64 bits\<close>

text \<open>
  The declared length \<open>n\<close> is the client's.  As long as the whole command is shorter than
  \<open>2 ^ 64\<close> bytes the sums do not wrap and the block is the \<open>n\<close> bytes after the line.
\<close>

abbreviation block_fits :: "pending_storage_command \<Rightarrow> bool" where
  "block_fits p \<equiv> ps_command_line_end p + 4 + unat (ps_bytes p) < 2 ^ 64"

lemma data_start_unat: "le + 2 \<le> isize_max \<Longrightarrow> unat (of_nat le + 2 :: usize) = le + 2"
  by (simp add: isize_max_def unat_word_ariths unat_of_nat)

lemma unat_add_no_wrap: "unat a + k < 2 ^ 64 \<Longrightarrow> unat (a + of_nat k :: usize) = unat a + k"
  by (simp add: unat_word_ariths unat_of_nat)

lemma unat_add_wrap:
  "2 ^ 64 \<le> unat a + unat b \<Longrightarrow> unat (a + b :: usize) = unat a + unat b - 2 ^ 64"
  using unat_bound [of a] unat_bound [of b]
  by (simp add: unat_word_ariths mod_if)

lemma storage_data_fits:
  assumes le: "ps_command_line_end p + 2 \<le> isize_max" and fits: "block_fits p"
  defines "e \<equiv> ps_command_line_end p + 2 + unat (ps_bytes p)"
  shows "parse_storage_data buf p =
    (if length buf < e + 2 then Done NeedMoreData
     else if buf ! e = CR \<and> buf ! (e + 1) = LF then
       Done (Complete
         (Set (ps_key p) (ps_flags p) (ps_exptime p)
           (take (unat (ps_bytes p)) (drop (ps_command_line_end p + 2) buf)) (ps_noreply p))
         (of_nat (e + 2)))
     else Done (Error UnexpectedData))"
proof -
  let ?s = "of_nat (ps_command_line_end p) + 2 :: usize"
  let ?e = "?s + ps_bytes p"
  have s: "unat ?s = ps_command_line_end p + 2" using le by (rule data_start_unat)
  have e: "unat ?e = e"
    using fits s by (simp add: e_def unat_word_ariths)
  have e1: "unat (?e + 1) = e + 1" and e2: "unat (?e + 2) = e + 2"
    using unat_add_no_wrap [of ?e 1] unat_add_no_wrap [of ?e 2] fits e by (simp_all add: e_def)
  have we: "?e + 2 = of_nat (e + 2)"
    by (simp add: e_def)
  have e2': "unat (of_nat (e + 2) :: usize) = e + 2" using e2 by (simp only: we)
  have "?s \<le> ?e" by (simp add: word_le_nat_alt s e e_def)
  moreover have "drop (ps_command_line_end p + 2) (take e buf) =
      take (unat (ps_bytes p)) (drop (ps_command_line_end p + 2) buf)"
    by (simp add: e_def drop_take)
  ultimately show ?thesis
    by (simp only: parse_storage_data_def Let_def slice_index_def slice_range_def e e1 s we e2') simp
qed

lemma storage_data_total_wraps:
  assumes le: "ps_command_line_end p + 2 \<le> length buf" and len: "length buf \<le> isize_max"
    and "ps_command_line_end p + 2 + unat (ps_bytes p) < 2 ^ 64" and "\<not> block_fits p"
  shows "parse_storage_data buf p = Panic"
proof -
  let ?s = "of_nat (ps_command_line_end p) + 2 :: usize"
  let ?e = "?s + ps_bytes p"
  have s: "unat ?s = ps_command_line_end p + 2" using le len by (intro data_start_unat) simp
  have e: "unat ?e = ps_command_line_end p + 2 + unat (ps_bytes p)"
    using assms(3) s by (simp add: unat_word_ariths)
  have "unat (?e + 2) = unat ?e + 2 - 2 ^ 64"
    using unat_add_wrap [of ?e 2] assms(4) e by simp
  then have "unat (?e + 2) \<le> 1" using assms(3) e by simp
  then have "\<not> length buf < unat (?e + 2)" using le by linarith
  moreover have "\<not> unat ?e < length buf" using len assms(4) e by (simp add: isize_max_def)
  ultimately show ?thesis
    by (simp only: parse_storage_data_def Let_def slice_index_def) simp
qed

lemma storage_data_end_wraps:
  assumes le: "ps_command_line_end p + 2 \<le> length buf" and len: "length buf \<le> isize_max"
    and wrap: "2 ^ 64 \<le> ps_command_line_end p + 2 + unat (ps_bytes p)"
  defines "e \<equiv> ps_command_line_end p + 2 + unat (ps_bytes p) - 2 ^ 64"
  shows "parse_storage_data buf p =
    (if length buf < e + 2 then Done NeedMoreData
     else if buf ! e = CR \<and> buf ! (e + 1) = LF then Panic
     else Done (Error UnexpectedData))"
proof -
  let ?s = "of_nat (ps_command_line_end p) + 2 :: usize"
  let ?e = "?s + ps_bytes p"
  have s: "unat ?s = ps_command_line_end p + 2" using le len by (intro data_start_unat) simp
  have e: "unat ?e = e"
    using wrap s unat_add_wrap [of ?s "ps_bytes p"] by (simp add: e_def)
  have lt: "e < ps_command_line_end p + 2"
    using unat_bound [of "ps_bytes p"] wrap by (simp add: e_def)
  then have "e + 2 < 2 ^ 64" using le len by (simp add: isize_max_def)
  then have e1: "unat (?e + 1) = e + 1" and e2: "unat (?e + 2) = e + 2"
    using unat_add_no_wrap [of ?e 1] unat_add_no_wrap [of ?e 2] e by simp_all
  have "\<not> ?s \<le> ?e" using lt by (simp add: word_le_nat_alt s e)
  then show ?thesis
    by (simp only: parse_storage_data_def Let_def slice_index_def slice_range_def e e1 e2 s) simp
qed

section \<open>Parsing as the buffer grows\<close>

lemma take_line_append: "find_crlf mc buf = Some i \<Longrightarrow> take i (buf @ ys) = take i buf"
  using find_crlf_bounds [of mc buf i] by simp

lemma get_keys_wf: "get_keys parts acc = Inr keys \<Longrightarrow> list_all is_valid_key acc \<Longrightarrow> list_all is_valid_key keys"
  by (induction parts acc rule: get_keys.induct) (auto split: if_splits)

lemma parse_complete_wf:
  assumes "parse mc buf = Done (Complete cmd n)" shows "command_wf cmd"
proof (cases "\<exists>p. parse_storage_command_line mc buf = Inr (Some p)")
  case True
  then obtain p where p: "parse_storage_command_line mc buf = Inr (Some p)" by blast
  then have "parse_storage_data buf p = Done (Complete cmd n)"
    using assms parse_pending by metis
  then have "\<exists>d. cmd = Set (ps_key p) (ps_flags p) (ps_exptime p) d (ps_noreply p)"
    by (auto simp: parse_storage_data_def Let_def split: if_splits outcome.splits)
  with pending_line [OF p] show ?thesis by auto
next
  case False
  with parse_not_pending [OF False] assms show ?thesis
    by (auto simp: parse_def parse_set_header parse_storage_command_line_header parse_get_def
        parse_delete_def Let_def map_sum_Inr_Some
        dest!: get_keys_wf split: option.splits sum.splits if_splits)
qed

context memchr_crate
begin

lemma command_line_append:
  "find_crlf mc buf = Some i \<Longrightarrow>
     parse_storage_command_line mc (buf @ ys) = parse_storage_command_line mc buf"
  by (simp add: parse_storage_command_line_header find_crlf_append take_line_append del: take_append)

lemma parse_append_not_pending:
  assumes "find_crlf mc buf = Some i" and "\<nexists>p. parse_storage_command_line mc buf = Inr (Some p)"
  shows "parse mc (buf @ ys) = parse mc buf"
  using assms
  by (auto simp: parse_def find_crlf_append take_line_append parse_set_header Let_def
      parse_storage_command_line_header map_sum_Inr_Some simp del: take_append
      split: option.split sum.split)

lemma pending_resume:
  assumes "parse_storage_command_line mc buf = Inr (Some p)"
  shows "parse_storage_data (buf @ ys) p = parse mc (buf @ ys)"
  using assms pending_line [OF assms] command_line_append parse_pending by metis

lemma pending_bounds:
  assumes "parse_storage_command_line mc buf = Inr (Some p)"
  shows "ps_command_line_end p + 2 \<le> length buf"
  using pending_line [OF assms] find_crlf_bounds by fastforce

lemma parse_append:
  assumes nm: "parse mc buf \<noteq> Done NeedMoreData" and len: "length (buf @ ys) \<le> isize_max"
  shows "parse mc (buf @ ys) = parse mc buf"
proof (cases "\<exists>p. parse_storage_command_line mc buf = Inr (Some p)")
  case False
  moreover have "find_crlf mc buf \<noteq> None"
    using nm by (cases "find_crlf mc buf") (simp_all add: parse_def)
  ultimately show ?thesis using parse_append_not_pending False by auto
next
  case True
  then obtain p where p: "parse_storage_command_line mc buf = Inr (Some p)" by blast
  have le: "ps_command_line_end p + 2 \<le> length buf" using p by (rule pending_bounds)
  have len': "length buf \<le> isize_max" using len by simp
  have nm': "parse_storage_data buf p \<noteq> Done NeedMoreData" using nm parse_pending [OF p] by simp
  have "parse_storage_data (buf @ ys) p = parse_storage_data buf p"
  proof (cases "block_fits p")
    case True
    with nm' le len' show ?thesis
      by (auto simp: storage_data_fits nth_append split: if_splits)
  next
    case F: False
    show ?thesis
    proof (cases "ps_command_line_end p + 2 + unat (ps_bytes p) < 2 ^ 64")
      case True
      with F le len show ?thesis
        using storage_data_total_wraps [of p buf] storage_data_total_wraps [of p "buf @ ys"] by simp
    next
      case False
      with nm' le len show ?thesis
        using storage_data_end_wraps [of p buf] storage_data_end_wraps [of p "buf @ ys"]
        by (auto simp: nth_append split: if_splits)
    qed
  qed
  then show ?thesis using p pending_resume parse_pending by metis
qed

lemma parse_complete_bounds:
  assumes "parse mc buf = Done (Complete cmd n)" and len: "length buf \<le> isize_max"
  shows "2 \<le> unat n \<and> unat n \<le> length buf"
proof (cases "\<exists>p. parse_storage_command_line mc buf = Inr (Some p)")
  case False
  with parse_not_pending [OF False] assms(1)
  obtain i where i: "find_crlf mc buf = Some i" "n = of_nat i + 2" by auto
  then have "i + 2 \<le> length buf" using find_crlf_bounds by fastforce
  with len i show ?thesis using data_start_unat [of i] by simp
next
  case True
  then obtain p where p: "parse_storage_command_line mc buf = Inr (Some p)" by blast
  have le: "ps_command_line_end p + 2 \<le> length buf" using p by (rule pending_bounds)
  have d: "parse_storage_data buf p = Done (Complete cmd n)" using assms(1) parse_pending [OF p] by simp
  have fits: "block_fits p"
    using d storage_data_total_wraps [OF le len] storage_data_end_wraps [OF le len]
    by (force split: if_splits)
  then have "length buf \<ge> ps_command_line_end p + 4 + unat (ps_bytes p)"
    and "n = of_nat (ps_command_line_end p + 4 + unat (ps_bytes p))"
    using d storage_data_fits [of p buf] le len by (auto split: if_splits)
  moreover have "unat (of_nat (ps_command_line_end p + 4 + unat (ps_bytes p)) :: usize) =
      ps_command_line_end p + 4 + unat (ps_bytes p)"
    using fits by (simp add: unat_of_nat del: of_nat_add)
  ultimately show ?thesis by simp
qed

end

section \<open>Decimal fields\<close>

lemma from_utf8_decimal: "from_utf8 (to_decimal n) = Some (to_decimal n)"
  unfolding from_utf8_def
  by (auto intro!: utf8_valid_ascii dest: to_decimal_ascii is_digit_ascii)

interpretation dec32: codec "\<lambda>w. to_decimal (unat w)" parse_u32
  by unfold_locales (simp add: parse_u32_def from_utf8_decimal from_str_uint_to_decimal)

interpretation dec64: codec "\<lambda>w. to_decimal (unat w)" parse_u64
  by unfold_locales (simp add: parse_u64_def from_utf8_decimal from_str_uint_to_decimal)

interpretation dec_usize: codec "\<lambda>w. to_decimal (unat w)" parse_usize
  by unfold_locales (simp add: parse_usize_def from_utf8_decimal from_str_uint_to_decimal)

lemma to_decimal_no_sep: "SP \<notin> set (to_decimal n) \<and> CR \<notin> set (to_decimal n)"
  using to_decimal_ascii [of _ n] is_digit_ascii by blast

section \<open>The client's side: printing a command\<close>

text \<open>
  The text a client sends for a command, as the command table of the README gives it.
\<close>

definition noreply_word :: "bool \<Rightarrow> bytes list" where
  "noreply_word b = (if b then [bs ''noreply''] else [])"

fun command_words :: "command \<Rightarrow> bytes list" where
  "command_words (Get keys) = bs ''get'' # keys"
| "command_words (Set key flags exptime data noreply) =
     [bs ''set'', key, to_decimal (unat flags), to_decimal (unat exptime),
      to_decimal (length data)] @ noreply_word noreply"
| "command_words (Delete key noreply) = [bs ''delete'', key] @ noreply_word noreply"
| "command_words Version = [bs ''version'']"
| "command_words Quit = [bs ''quit'']"

fun command_block :: "command \<Rightarrow> bytes" where
  "command_block (Set key flags exptime data noreply) = data @ crlf"
| "command_block _ = []"

definition render :: "command \<Rightarrow> bytes" where
  "render cmd = join SP (command_words cmd) @ crlf @ command_block cmd"

lemma command_words_no_sep:
  assumes "command_wf cmd" and "w \<in> set (command_words cmd)"
  shows "SP \<notin> set w \<and> CR \<notin> set w"
  using assms to_decimal_no_sep
  by (cases cmd) (auto simp: bs_def noreply_word_def list_all_iff is_valid_key_no_sep split: if_splits)

lemma split_command_line:
  "command_wf cmd \<Longrightarrow> split_on SP (join SP (command_words cmd)) = command_words cmd"
  by (rule split_on_join) (cases cmd, auto dest: command_words_no_sep)

lemma command_line_no_CR: "command_wf cmd \<Longrightarrow> CR \<notin> set (join SP (command_words cmd))"
  using set_join [of SP "command_words cmd"] command_words_no_sep [of cmd] by fastforce

lemma get_keys_valid: "list_all is_valid_key ks \<Longrightarrow> get_keys ks acc = Inr (acc @ ks)"
  by (induction ks arbitrary: acc) (auto dest: is_valid_key_not_Nil)

lemma set_header_render:
  assumes "is_valid_key key" and "length data \<le> isize_max"
  shows "set_header (tl (command_words (Set key flags exptime data noreply))) i =
    Inr \<lparr>ps_key = key, ps_flags = flags, ps_exptime = exptime, ps_bytes = of_nat (length data),
      ps_noreply = noreply, ps_command_line_end = i\<rparr>"
proof -
  have "unat (of_nat (length data) :: usize) = length data"
    using assms(2) by (simp add: isize_max_def unat_of_nat)
  then have "parse_usize (to_decimal (length data)) = Some (of_nat (length data))"
    using dec_usize.dec_enc [of "of_nat (length data)"] by simp
  with assms show ?thesis
    by (simp add: set_header_def next_part_def is_valid_key_not_Nil dec32.dec_enc dec64.dec_enc
        is_noreply_part_def noreply_word_def)
qed

context memchr_crate
begin

lemma find_crlf_render:
  "command_wf cmd \<Longrightarrow>
     find_crlf mc (render cmd @ rest) = Some (length (join SP (command_words cmd)))"
  using find_crlf_line [OF command_line_no_CR] by (simp add: render_def)

lemma take_render:
  "take (length (join SP (command_words cmd))) (render cmd @ rest) = join SP (command_words cmd)"
  by (simp add: render_def)

lemma parse_render_words:
  assumes wf: "command_wf cmd" and ws: "command_words cmd = name # args" and "name \<noteq> []"
  defines "i \<equiv> length (join SP (command_words cmd))"
  shows "parse mc (render cmd @ rest) =
    (if cmd_eq name (bs ''get'') then Done (parse_get args (of_nat i + 2))
     else if cmd_eq name (bs ''set'') then parse_set args (render cmd @ rest) i
     else if cmd_eq name (bs ''delete'') then Done (parse_delete args (of_nat i + 2))
     else if cmd_eq name (bs ''version'') then Done (Complete Version (of_nat i + 2))
     else if cmd_eq name (bs ''quit'') then Done (Complete Quit (of_nat i + 2))
     else Done (Error (InvalidCommand (from_utf8_lossy name))))"
proof -
  have find: "find_crlf mc (render cmd @ rest) = Some i"
    unfolding i_def using wf by (rule find_crlf_render)
  have "split_on SP (take i (render cmd @ rest)) = name # args"
    unfolding i_def take_render split_command_line [OF wf] by (rule ws)
  with find \<open>name \<noteq> []\<close> show ?thesis
    by (simp add: parse_def Let_def next_part_def del: take_append)
qed

lemma cmd_eq_self:
  "cmd_eq (bs ''get'') (bs ''get'')" "cmd_eq (bs ''set'') (bs ''set'')"
  "cmd_eq (bs ''delete'') (bs ''delete'')" "cmd_eq (bs ''version'') (bs ''version'')"
  "cmd_eq (bs ''quit'') (bs ''quit'')"
  by (simp_all add: cmd_eq_def bs_def to_ascii_lowercase_def)

lemma cmd_eq_other:
  "\<not> cmd_eq (bs ''set'') (bs ''get'')" "\<not> cmd_eq (bs ''delete'') (bs ''get'')"
  "\<not> cmd_eq (bs ''version'') (bs ''get'')" "\<not> cmd_eq (bs ''quit'') (bs ''get'')"
  "\<not> cmd_eq (bs ''delete'') (bs ''set'')" "\<not> cmd_eq (bs ''version'') (bs ''set'')"
  "\<not> cmd_eq (bs ''quit'') (bs ''set'')" "\<not> cmd_eq (bs ''version'') (bs ''delete'')"
  "\<not> cmd_eq (bs ''quit'') (bs ''delete'')" "\<not> cmd_eq (bs ''quit'') (bs ''version'')"
  by (simp_all add: cmd_eq_def bs_def to_ascii_lowercase_def)

lemma parse_render_set:
  assumes wf: "is_valid_key key"
    and len: "length (render (Set key flags exptime data noreply) @ rest) \<le> isize_max"
  shows "parse mc (render (Set key flags exptime data noreply) @ rest) =
    Done (Complete (Set key flags exptime data noreply)
      (of_nat (length (render (Set key flags exptime data noreply)))))"
proof -
  let ?c = "Set key flags exptime data noreply"
  define l where "l = join SP (command_words ?c)"
  let ?p = "\<lparr>ps_key = key, ps_flags = flags, ps_exptime = exptime,
    ps_bytes = of_nat (length data), ps_noreply = noreply, ps_command_line_end = length l\<rparr>"
  have r: "render ?c = l @ crlf @ data @ crlf" by (simp add: render_def l_def)
  have data: "length data + length l + 4 \<le> isize_max" using len by (simp add: r)
  then have n: "unat (of_nat (length data) :: usize) = length data"
    by (simp add: isize_max_def unat_of_nat)
  have "parse mc (render ?c @ rest) = parse_set (tl (command_words ?c)) (render ?c @ rest) (length l)"
    using wf parse_render_words [of ?c "bs ''set''" "tl (command_words ?c)" rest]
    by (simp add: l_def cmd_eq_self cmd_eq_other del: length_bs) (simp add: bs_def)
  also have "\<dots> = parse_storage_data (render ?c @ rest) ?p"
    using set_header_render [of key data flags exptime noreply "length l"] wf data
    by (simp only: parse_set_header) simp
  also have "\<dots> = Done (Complete ?c (of_nat (length (render ?c))))"
    using data n by (subst storage_data_fits) (auto simp: isize_max_def r nth_append)
  finally show ?thesis .
qed

lemma delete_noreply_word: "delete_noreply (noreply_word b) False = b"
  by (simp add: noreply_word_def bs_def)

lemma parse_render:
  assumes wf: "command_wf cmd" and len: "length (render cmd @ rest) \<le> isize_max"
  shows "parse mc (render cmd @ rest) = Done (Complete cmd (of_nat (length (render cmd))))"
proof (cases cmd)
  case (Get keys)
  then show ?thesis
    using wf parse_render_words [of cmd "bs ''get''" keys rest]
    by (simp add: cmd_eq_self parse_get_def get_keys_valid render_def) (simp add: bs_def)
next
  case (Set k f x d r)
  then show ?thesis using parse_render_set wf len by auto
next
  case (Delete key noreply)
  then show ?thesis
    using wf parse_render_words [of cmd "bs ''delete''" "key # noreply_word noreply" rest]
    by (simp add: cmd_eq_self cmd_eq_other parse_delete_def next_part_def render_def
        is_valid_key_not_Nil delete_noreply_word) (simp add: bs_def)
next
  case Version
  then show ?thesis
    using parse_render_words [of cmd "bs ''version''" "[]" rest]
    by (simp add: cmd_eq_self cmd_eq_other render_def) (simp add: bs_def)
next
  case Quit
  then show ?thesis
    using parse_render_words [of cmd "bs ''quit''" "[]" rest]
    by (simp add: cmd_eq_self cmd_eq_other render_def) (simp add: bs_def)
qed

end

section \<open>Panics and errors\<close>

text \<open>The declared lengths that make a well-formed command line panic.\<close>

definition panic_lengths :: "nat \<Rightarrow> nat set" where
  "panic_lengths line_end = {2 ^ 64 - 2, 2 ^ 64 - 3 - line_end, 2 ^ 64 - 4 - line_end}"

lemma not_pending_no_panic:
  "\<nexists>p. parse_storage_command_line mc buf = Inr (Some p) \<Longrightarrow> parse mc buf \<noteq> Panic"
  using parse_not_pending [of mc buf] by auto

lemma next_part_mem: "next_part parts = Some p \<Longrightarrow> p \<in> set parts"
  by (auto simp: next_part_def split: list.splits)

lemma get_keys_error:
  "get_keys parts acc = Inl e \<Longrightarrow> quoted_text e = [] \<or> (\<exists>p \<in> set parts. quoted_text e = from_utf8_lossy p)"
  by (induction parts acc rule: get_keys.induct) (auto split: if_splits)

lemma set_header_error:
  "set_header parts i = Inl e \<Longrightarrow>
     CR \<notin> set (quoted_text e) \<or> (\<exists>p \<in> set parts. quoted_text e = from_utf8_lossy p)"
  by (auto simp: set_header_def bs_def dest: next_part_mem split: option.splits if_splits)

lemma lossy_no_CR: "CR \<notin> set xs \<Longrightarrow> CR \<notin> set (from_utf8_lossy xs)"
  using from_utf8_lossy_set [of xs] by auto

lemma storage_data_error: "parse_storage_data buf p = Done (Error e) \<Longrightarrow> e = UnexpectedData"
  by (auto simp: parse_storage_data_def Let_def split: if_splits outcome.splits)

context memchr_crate
begin

lemma storage_data_panics_iff:
  assumes p: "parse_storage_command_line mc buf = Inr (Some p)" and len: "length buf \<le> isize_max"
  shows "parse_storage_data buf p = Panic \<longleftrightarrow> unat (ps_bytes p) \<in> panic_lengths (ps_command_line_end p)"
proof -
  let ?le = "ps_command_line_end p" and ?n = "unat (ps_bytes p)"
  obtain line rest where buf: "buf = line @ CR # LF # rest" "CR \<notin> set line" "length line = ?le"
    using pending_line [OF p] find_crlf_SomeD by blast
  have le: "?le + 2 \<le> length buf" using p by (rule pending_bounds)
  have nb: "?n < 2 ^ 64" using unat_bound [of "ps_bytes p"] by simp
  have CR_at: "buf ! j = CR \<longleftrightarrow> j = ?le" if "j < ?le + 2" for j
    using that buf by (cases "j < ?le") (auto simp: nth_append nth_Cons' in_set_conv_nth)
  consider "block_fits p" | "\<not> block_fits p" "?le + 2 + ?n < 2 ^ 64" | "2 ^ 64 \<le> ?le + 2 + ?n"
    by linarith
  then show ?thesis
  proof cases
    case 1
    then show ?thesis
      using le len storage_data_fits [of p buf] by (auto simp: panic_lengths_def isize_max_def)
  next
    case 2
    then have "?n = 2 ^ 64 - 3 - ?le \<or> ?n = 2 ^ 64 - 4 - ?le" by linarith
    then show ?thesis
      using storage_data_total_wraps [OF le len] 2 by (auto simp: panic_lengths_def)
  next
    case 3
    let ?e = "?le + 2 + ?n - 2 ^ 64"
    have lt: "?e < ?le + 2" using nb 3 by linarith
    have "parse_storage_data buf p = Panic \<longleftrightarrow> ?e = ?le"
      using storage_data_end_wraps [OF le len 3] CR_at [OF lt] buf le
      by (auto simp: nth_append)
    also have "\<dots> \<longleftrightarrow> ?n = 2 ^ 64 - 2" using 3 nb by auto
    also have "\<dots> \<longleftrightarrow> ?n \<in> panic_lengths ?le" using 3 le len
      by (auto simp: panic_lengths_def isize_max_def)
    finally show ?thesis .
  qed
qed

lemma parse_panics:
  assumes "length buf \<le> isize_max"
  shows "parse mc buf = Panic \<longleftrightarrow>
    (\<exists>p. parse_storage_command_line mc buf = Inr (Some p) \<and>
       unat (ps_bytes p) \<in> panic_lengths (ps_command_line_end p))"
  using not_pending_no_panic [of mc buf] parse_pending [of mc buf]
    storage_data_panics_iff [OF _ assms] by metis

lemma parse_error_no_CR:
  assumes "parse mc buf = Done (Error e)"
  shows "CR \<notin> set (quoted_text e)"
proof -
  obtain i where i: "find_crlf mc buf = Some i"
    using assms by (auto simp: parse_def split: option.splits)
  then obtain line where line: "take i buf = line" "CR \<notin> set line"
    using find_crlf_SomeD by fastforce
  have piece: "CR \<notin> set (from_utf8_lossy w)" if "w \<in> set (split_on SP line)" for w
    using split_on_piece_subset [OF that] line(2) by (intro lossy_no_CR) auto
  then have tl_piece: "CR \<notin> set (from_utf8_lossy w)" if "w \<in> set (tl (split_on SP line))" for w
    using that by (meson list.set_sel(2) split_on_not_Nil)
  show ?thesis
    using assms i piece tl_piece
    by (auto simp: parse_def line Let_def parse_get_def parse_set_header parse_delete_def bs_def
        dest!: get_keys_error set_header_error storage_data_error next_part_mem
        split: option.splits sum.splits if_splits)
qed

lemma parse_lone_CR:
  "CR \<notin> set line \<Longrightarrow> c \<noteq> LF \<Longrightarrow> parse mc (line @ CR # c # rest) = Done NeedMoreData"
  by (simp add: parse_def find_crlf_lone_CR)

end

lemma of_nat_word_eq: "of_nat k = (n :: 'w::len word) \<and> k < 2 ^ LENGTH('w) \<longleftrightarrow> k = unat n"
  using unat_bound [of n] by (auto simp: unat_of_nat take_bit_nat_eq_self)

lemma decimal_field:
  "Option.bind (from_utf8 b) from_str_uint = Some (n :: 'w::len word) \<longleftrightarrow>
     (\<exists>ds. b \<in> {ds, 43 # ds} \<and> ds \<noteq> [] \<and> list_all is_digit ds \<and> dec_value 0 ds = unat n)"
proof -
  have valid: "utf8_valid ds" "utf8_valid (43 # ds)" if "list_all is_digit ds" for ds
    using that by (auto intro!: utf8_valid_ascii simp: list_all_iff dest: is_digit_ascii)
  have nd: "\<not> is_digit 43" by (simp add: is_digit_def)
  show ?thesis
    using valid nd of_nat_word_eq [of _ n]
    by (auto simp: from_utf8_def from_str_uint_eq Let_def split: list.splits if_splits)
qed

section \<open>Properties\<close>

lemmas loop_memchr = loop.memchr_crate_axioms

text \<open>
  C8: Printing and parsing are inverse: a well-formed command, rendered the way the README's command
  table writes it and followed by any bytes, parses to exactly that command, and the number of
  consumed bytes is the length of its text.
\<close>

theorem parse_render_roundtrip:
  assumes "memchr_crate mc" and "command_wf cmd" and "length (render cmd @ rest) \<le> isize_max"
  shows "parse mc (render cmd @ rest) = Done (Complete cmd (of_nat (length (render cmd))))"
  using assms by (rule memchr_crate.parse_render)

theorem parse_render_roundtrip_witness:
  "parse memchr_loop (render (Set (bs ''k'') 7 60 [13, 10, 0] True) @ bs ''get'') =
     Done (Complete (Set (bs ''k'') 7 60 [13, 10, 0] True) 27)"
  using parse_render_roundtrip [OF loop_memchr, of "Set (bs ''k'') 7 60 [13, 10, 0] True" "bs ''get''"]
  by (simp add: run_simps render_def noreply_word_def isize_max_def)

text \<open>
  C9: The two ways the server reads a storage command agree: when a short read has left a parsed
  command line behind, finishing it with the pending record gives, whatever bytes arrive next, the
  same result (command, consumed length, error, need for more data or panic) as parsing the whole
  buffer from the start.
\<close>

theorem pending_equals_direct_parse:
  assumes "memchr_crate mc" and "parse_storage_command_line mc buf = Inr (Some p)"
  shows "parse_storage_data (buf @ ys) p = parse mc (buf @ ys)"
  using assms by (rule memchr_crate.pending_resume)

theorem pending_equals_direct_parse_witness:
  "parse_storage_data (bs ''set a 1 0 2'' @ crlf @ bs ''hi'' @ crlf)
     \<lparr>ps_key = bs ''a'', ps_flags = 1, ps_exptime = 0, ps_bytes = 2, ps_noreply = False,
      ps_command_line_end = 11\<rparr> =
   parse memchr_loop (bs ''set a 1 0 2'' @ crlf @ bs ''hi'' @ crlf)"
proof -
  have "parse_storage_command_line memchr_loop (bs ''set a 1 0 2'' @ crlf) =
      Inr (Some \<lparr>ps_key = bs ''a'', ps_flags = 1, ps_exptime = 0, ps_bytes = 2,
        ps_noreply = False, ps_command_line_end = 11\<rparr>)"
    by (simp add: run_simps)
  from pending_equals_direct_parse [OF loop_memchr this, of "bs ''hi'' @ crlf"] show ?thesis
    by (simp only: append_assoc)
qed

text \<open>
  C25: Bytes that arrive later never change a decision already taken: once the parser has found a
  complete command, an error or a panic at the front of the buffer, it finds the same with any
  bytes appended.
\<close>

theorem parse_stable_under_append:
  assumes "memchr_crate mc" and "parse mc buf \<noteq> Done NeedMoreData"
    and "length (buf @ ys) \<le> isize_max"
  shows "parse mc (buf @ ys) = parse mc buf"
  using assms by (rule memchr_crate.parse_append)

theorem parse_stable_under_append_witness:
  "parse memchr_loop (bs ''bad'' @ crlf @ bs ''get k'' @ crlf) = parse memchr_loop (bs ''bad'' @ crlf)"
  using parse_stable_under_append [OF loop_memchr, of "bs ''bad'' @ crlf" "bs ''get k'' @ crlf"]
  by (simp add: run_simps isize_max_def)

text \<open>
  C26: What the parser hands over is safe to use: a completed command has valid keys (and at least
  one), and the consumed length is at least two and never more than the buffer holds, so the
  connection's \<open>split_to\<close> stays in bounds and every turn makes progress.
\<close>

theorem parse_complete_in_bounds:
  assumes "memchr_crate mc" and "parse mc buf = Done (Complete cmd n)" and "length buf \<le> isize_max"
  shows "command_wf cmd \<and> 2 \<le> unat n \<and> unat n \<le> length buf"
  using parse_complete_wf [OF assms(2)] memchr_crate.parse_complete_bounds [OF assms] by simp

theorem parse_complete_in_bounds_witness:
  "command_wf (Get [bs ''a'', bs ''b'']) \<and> 2 \<le> unat (9 :: usize) \<and>
     unat (9 :: usize) \<le> length (bs ''get a b'' @ crlf)"
  by (rule parse_complete_in_bounds [OF loop_memchr]) (simp_all add: run_simps isize_max_def)

text \<open>
  C10: Exactly which input makes the parser panic: a well-formed \<open>set\<close> line whose declared length is
  one of three numbers just below \<open>2 ^ 64\<close>, where the sum of offset and length wraps around past
  the length check.  On any other input the parser returns.
\<close>

theorem parse_panics_iff:
  assumes "memchr_crate mc" and "length buf \<le> isize_max"
  shows "parse mc buf = Panic \<longleftrightarrow>
    (\<exists>p. parse_storage_command_line mc buf = Inr (Some p) \<and>
       unat (ps_bytes p) \<in> {2 ^ 64 - 2, 2 ^ 64 - 3 - ps_command_line_end p,
         2 ^ 64 - 4 - ps_command_line_end p})"
  using memchr_crate.parse_panics [OF assms] by (simp add: panic_lengths_def)

theorem parse_panics_iff_witness:
  "parse memchr_loop (bs ''set a 0 0 18446744073709551614'' @ crlf) = Panic"
proof -
  let ?buf = "bs ''set a 0 0 18446744073709551614'' @ crlf"
  have "parse_storage_command_line memchr_loop ?buf =
      Inr (Some \<lparr>ps_key = bs ''a'', ps_flags = 0, ps_exptime = 0, ps_bytes = 18446744073709551614,
        ps_noreply = False, ps_command_line_end = 30\<rparr>)"
    by (simp add: run_simps)
  then show ?thesis
    by (subst parse_panics_iff [OF loop_memchr]) (simp_all add: isize_max_def bs_def)
qed

text \<open>
  C27: The numeric fields of a command are read exactly: the parser accepts a flags, exptime or
  length field precisely when it is a non-empty run of decimal digits, after at most one plus sign,
  whose value fits the field's width, and then yields that value.
\<close>

theorem parse_numbers_exact:
  "(parse_u32 b = Some flags \<longleftrightarrow>
      (\<exists>ds. b \<in> {ds, 43 # ds} \<and> ds \<noteq> [] \<and> list_all is_digit ds \<and> dec_value 0 ds = unat flags)) \<and>
   (parse_u64 b = Some exptime \<longleftrightarrow>
      (\<exists>ds. b \<in> {ds, 43 # ds} \<and> ds \<noteq> [] \<and> list_all is_digit ds \<and> dec_value 0 ds = unat exptime)) \<and>
   (parse_usize b = Some len \<longleftrightarrow>
      (\<exists>ds. b \<in> {ds, 43 # ds} \<and> ds \<noteq> [] \<and> list_all is_digit ds \<and> dec_value 0 ds = unat len))"
  unfolding parse_u32_def parse_u64_def parse_usize_def decimal_field by simp

end
