(* ===== verification/Response.thy ===== *)
theory Response
  imports Parser
begin

text \<open>
  The response builder of \<open>src/protocol/response.rs\<close>.  A \<open>BytesMut\<close> is the sequence of the bytes
  it holds (its capacity is not observable).  The number formatting \<open>itoa::Buffer::format\<close> of the
  \<open>itoa\<close> crate is the argument \<open>it\<close>; the locale \<open>itoa_crate\<close> says what the writer relies on.
\<close>

section \<open>Definitions\<close>

type_synonym itoa = "nat \<Rightarrow> str"

record response_writer =
  rw_buf :: bytes

definition writer_new :: "usize \<Rightarrow> response_writer" where
  "writer_new capacity = \<lparr>rw_buf = []\<rparr>"

definition writer_default :: response_writer where
  "writer_default = writer_new 4096"

definition writer_buffer :: "response_writer \<Rightarrow> bytes" where
  "writer_buffer w = rw_buf w"

definition writer_take :: "response_writer \<Rightarrow> bytes \<times> response_writer" where
  "writer_take w = (rw_buf w, w\<lparr>rw_buf := []\<rparr>)"

definition writer_clear :: "response_writer \<Rightarrow> response_writer" where
  "writer_clear w = w\<lparr>rw_buf := []\<rparr>"

definition writer_is_empty :: "response_writer \<Rightarrow> bool" where
  "writer_is_empty w = (rw_buf w = [])"

definition extend_from_slice :: "bytes \<Rightarrow> response_writer \<Rightarrow> response_writer" where
  "extend_from_slice b w = w\<lparr>rw_buf := rw_buf w @ b\<rparr>"

definition writer_value ::
    "itoa \<Rightarrow> bytes \<Rightarrow> u32 \<Rightarrow> bytes \<Rightarrow> response_writer \<Rightarrow> response_writer" where
  "writer_value it key flags data w =
     (let w = extend_from_slice (bs ''VALUE '') w;
          w = extend_from_slice key w;
          w = extend_from_slice (bs '' '') w;
          w = extend_from_slice (it (unat flags)) w;
          w = extend_from_slice (bs '' '') w;
          w = extend_from_slice (it (length data)) w;
          w = extend_from_slice crlf w;
          w = extend_from_slice data w
      in extend_from_slice crlf w)"

definition writer_end :: "response_writer \<Rightarrow> response_writer" where
  "writer_end w = extend_from_slice (bs ''END'' @ crlf) w"

definition writer_stored :: "response_writer \<Rightarrow> response_writer" where
  "writer_stored w = extend_from_slice (bs ''STORED'' @ crlf) w"

definition writer_not_found :: "response_writer \<Rightarrow> response_writer" where
  "writer_not_found w = extend_from_slice (bs ''NOT_FOUND'' @ crlf) w"

definition writer_deleted :: "response_writer \<Rightarrow> response_writer" where
  "writer_deleted w = extend_from_slice (bs ''DELETED'' @ crlf) w"

definition writer_version :: "str \<Rightarrow> response_writer \<Rightarrow> response_writer" where
  "writer_version version w =
     extend_from_slice crlf (extend_from_slice version (extend_from_slice (bs ''VERSION '') w))"

definition writer_client_error :: "str \<Rightarrow> response_writer \<Rightarrow> response_writer" where
  "writer_client_error message w =
     extend_from_slice crlf (extend_from_slice message (extend_from_slice (bs ''CLIENT_ERROR '') w))"

definition writer_server_error :: "str \<Rightarrow> response_writer \<Rightarrow> response_writer" where
  "writer_server_error message w =
     extend_from_slice crlf (extend_from_slice message (extend_from_slice (bs ''SERVER_ERROR '') w))"

lemmas writer_defs = writer_new_def writer_default_def writer_buffer_def writer_take_def
  writer_clear_def writer_is_empty_def extend_from_slice_def writer_value_def writer_end_def
  writer_stored_def writer_not_found_def writer_deleted_def writer_version_def
  writer_client_error_def writer_server_error_def

lemmas [run_simps] = writer_defs

section \<open>The bytes each call appends\<close>

text \<open>The text of one \<open>VALUE\<close> item, with the numbers in decimal.\<close>

definition value_text :: "bytes \<Rightarrow> u32 \<Rightarrow> bytes \<Rightarrow> bytes" where
  "value_text key flags data =
     join SP [bs ''VALUE'', key, to_decimal (unat flags), to_decimal (length data)]
       @ crlf @ data @ crlf"

locale itoa_crate =
  fixes it :: itoa
  assumes itoa_decimal: "it n = to_decimal n"
begin

lemma rw_buf_value: "rw_buf (writer_value it key flags data w) = rw_buf w @ value_text key flags data"
  by (simp add: writer_value_def extend_from_slice_def value_text_def itoa_decimal Let_def bs_def)

end

interpretation std_itoa: itoa_crate to_decimal
  by unfold_locales simp

lemma rw_buf_simps [simp]:
  "rw_buf (writer_end w) = rw_buf w @ bs ''END'' @ crlf"
  "rw_buf (writer_stored w) = rw_buf w @ bs ''STORED'' @ crlf"
  "rw_buf (writer_not_found w) = rw_buf w @ bs ''NOT_FOUND'' @ crlf"
  "rw_buf (writer_deleted w) = rw_buf w @ bs ''DELETED'' @ crlf"
  "rw_buf (writer_version v w) = rw_buf w @ bs ''VERSION '' @ v @ crlf"
  "rw_buf (writer_client_error m w) = rw_buf w @ bs ''CLIENT_ERROR '' @ m @ crlf"
  "rw_buf (writer_server_error m w) = rw_buf w @ bs ''SERVER_ERROR '' @ m @ crlf"
  "rw_buf (writer_clear w) = []"
  "rw_buf (writer_new c) = []"
  "writer_take w = (rw_buf w, writer_clear w)"
  "writer_is_empty w \<longleftrightarrow> rw_buf w = []"
  by (simp_all add: writer_defs)

section \<open>The client's side: reading a get reply\<close>

text \<open>
  A reader of \<open>get\<close> replies, as a client library has it: a line of words, then the announced number
  of data bytes, until \<open>END\<close>.  It returns the items and the bytes after the reply.
\<close>

function read_reply :: "bytes \<Rightarrow> ((bytes \<times> u32 \<times> bytes) list \<times> bytes) option" where
  "read_reply buf =
     (let line = takeWhile (\<lambda>b. b \<noteq> CR) buf;
          rest = drop (length line + 2) buf
      in if line = [] then None
         else (case split_on SP line of
             [a] \<Rightarrow> if a = bs ''END'' then Some ([], rest) else None
           | [a, k, f, n] \<Rightarrow>
               (case (parse_u32 f, parse_usize n) of
                  (Some flags, Some len) \<Rightarrow>
                    if a = bs ''VALUE'' then
                      map_option (\<lambda>(items, r). ((k, flags, take (unat len) rest) # items, r))
                        (read_reply (drop (unat len + 2) rest))
                    else None
                | _ \<Rightarrow> None)
           | _ \<Rightarrow> None))"
  by pat_completeness auto
termination
proof (relation "measure length", goal_cases)
  case (2 buf line rest)
  then have "buf \<noteq> []" by auto
  with 2 show ?case by (cases buf) auto
qed simp

declare read_reply.simps [simp del]

text \<open>The text of a whole reply.\<close>

definition reply_text :: "(bytes \<times> u32 \<times> bytes) list \<Rightarrow> bytes" where
  "reply_text items =
     concat (map (\<lambda>(k, f, d). value_text k f d) items) @ bs ''END'' @ crlf"

lemma reply_text_Nil: "reply_text [] = bs ''END'' @ crlf"
  by (simp add: reply_text_def)

lemma reply_text_Cons: "reply_text ((k, f, d) # items) = value_text k f d @ reply_text items"
  by (simp add: reply_text_def)

lemma value_line:
  fixes f :: u32 and n :: nat
  assumes "is_valid_key k"
  defines "ws \<equiv> [bs ''VALUE'', k, to_decimal (unat f), to_decimal n]"
  shows "CR \<notin> set (join SP ws)" and "split_on SP (join SP ws) = ws" and "join SP ws \<noteq> []"
proof -
  have w: "SP \<notin> set w \<and> CR \<notin> set w" if "w \<in> set ws" for w
    using that assms is_valid_key_no_sep to_decimal_no_sep by (auto simp: ws_def bs_def)
  then show "CR \<notin> set (join SP ws)" using set_join [of SP ws] by fastforce
  show "split_on SP (join SP ws) = ws" using w by (intro split_on_join) (auto simp: ws_def)
  show "join SP ws \<noteq> []" by (simp add: ws_def bs_def)
qed

lemma read_value:
  assumes "is_valid_key k" and "length d < 2 ^ 64"
  shows "read_reply (value_text k f d @ tail) =
    map_option (\<lambda>(items, r). ((k, f, d) # items, r)) (read_reply tail)"
proof -
  define l where "l = join SP [bs ''VALUE'', k, to_decimal (unat f), to_decimal (length d)]"
  note line = value_line [OF assms(1), of f "length d", folded l_def]
  have tw: "takeWhile (\<lambda>b. b \<noteq> CR) (l @ CR # ys) = l" for ys
    using line(1) by simp
  have n: "unat (of_nat (length d) :: usize) = length d"
    using assms(2) by (simp add: unat_of_nat)
  then have pn: "parse_usize (to_decimal (length d)) = Some (of_nat (length d))"
    using dec_usize.dec_enc [of "of_nat (length d)"] by simp
  have v: "value_text k f d @ tail = l @ CR # LF # d @ CR # LF # tail"
    by (simp add: value_text_def l_def)
  have rest: "drop (length l + 2) (l @ CR # LF # d @ CR # LF # tail) = d @ CR # LF # tail"
    and rest': "drop (length d + 2) (d @ CR # LF # tail) = tail" by simp_all
  show ?thesis
    unfolding v
    by (subst read_reply.simps)
      (simp only: tw rest Let_def line(2,3) list.case pn dec32.dec_enc prod.case option.case n rest'
        if_True if_False simp_thms, simp)
qed

lemma read_end: "read_reply (bs ''END'' @ crlf @ tail) = Some ([], tail)"
  by (subst read_reply.simps) (simp add: bs_def)

lemma read_reply_text:
  "\<forall>(k, f, d) \<in> set items. is_valid_key k \<and> length d < 2 ^ 64 \<Longrightarrow>
     read_reply (reply_text items @ tail) = Some (items, tail)"
proof (induction items)
  case Nil
  then show ?case using read_end [of tail] by (simp add: reply_text_Nil)
next
  case (Cons x items)
  obtain k f d where x: "x = (k, f, d)" by (cases x)
  with Cons show ?case by (auto simp: reply_text_Cons read_value)
qed

context itoa_crate
begin

lemma rw_buf_items:
  "rw_buf (fold (\<lambda>(k, f, d). writer_value it k f d) items w) =
     rw_buf w @ concat (map (\<lambda>(k, f, d). value_text k f d) items)"
  by (induction items arbitrary: w) (auto simp: rw_buf_value)

end

section \<open>Properties\<close>

text \<open>
  A \<open>get\<close> reply can be read back without ambiguity: whatever bytes the values hold, line ends and
  the word \<open>END\<close> included, a client that reads the announced lengths recovers exactly the keys, flags
  and data that were written, and ends exactly where the reply ends.
\<close>

theorem reply_readable:
  assumes "itoa_crate it" and "rw_buf w = []"
    and "\<forall>(k, f, d) \<in> set items. is_valid_key k \<and> length d < 2 ^ 64"
  shows "read_reply
      (rw_buf (writer_end (fold (\<lambda>(k, f, d). writer_value it k f d) items w)) @ tail) =
    Some (items, tail)"
  using read_reply_text [OF assms(3), of tail] assms(2)
  by (simp add: itoa_crate.rw_buf_items [OF assms(1)] reply_text_def)

theorem reply_readable_witness:
  "read_reply (rw_buf (writer_end (writer_value to_decimal (bs ''a'') 5 (bs ''END'' @ crlf) (writer_new 0)))
     @ bs ''STORED'') = Some ([(bs ''a'', 5, bs ''END'' @ crlf)], bs ''STORED'')"
  using reply_readable [OF std_itoa.itoa_crate_axioms, of "writer_new 0"
      "[(bs ''a'', 5, bs ''END'' @ crlf)]" "bs ''STORED''"]
  by (simp add: is_valid_key_def MAX_KEY_LENGTH_def bs_def)

text \<open>
  An error reply is one line: the text of a protocol error quotes what the client sent, but it
  never holds a carriage return, so the only line end of the \<open>CLIENT_ERROR\<close> reply is its last one
  and a client cannot be made to see a second reply.
\<close>

theorem client_error_one_line:
  assumes "memchr_crate mc" and "parse mc buf = Done (Error e)"
  shows "\<exists>body. rw_buf (writer_client_error (protocol_error_to_string e) (writer_new n)) = body @ crlf \<and>
    CR \<notin> set body"
proof -
  have "CR \<notin> set (protocol_error_to_string e)"
    using memchr_crate.parse_error_no_CR [OF assms] by (simp add: protocol_error_CR)
  then show ?thesis
    by (intro exI [of _ "bs ''CLIENT_ERROR '' @ protocol_error_to_string e"]) (simp add: bs_def)
qed

theorem client_error_one_line_witness:
  "\<exists>body. rw_buf (writer_client_error
      (protocol_error_to_string (InvalidCommand (bs ''frob''))) (writer_new 0)) = body @ crlf \<and>
    CR \<notin> set body"
proof (rule client_error_one_line [OF loop_memchr])
  show "parse memchr_loop (bs ''frob x'' @ crlf) = Done (Error (InvalidCommand (bs ''frob'')))"
    by (simp add: run_simps)
qed

end
