(* ===== verification/Value.thy ===== *)
theory Value
  imports Errors
begin

text \<open>
  Stored values, their binary format and the TTL rules of \<open>src/storage/value.rs\<close>.  A function that
  reads the clock takes the clock \<open>clk\<close> and the number of readings taken so far, and returns the
  number after it.
\<close>

section \<open>Definitions\<close>

definition MAX_RELATIVE_TTL :: u64 where
  "MAX_RELATIVE_TTL = 2592000"

record stored_value =
  sv_expire_at :: u64
  sv_flags :: u32
  sv_data :: bytes

definition current_timestamp :: "clock \<Rightarrow> nat \<Rightarrow> u64 \<times> nat" where
  "current_timestamp clk i =
     ((case secs_since_epoch (clk i) of Some s \<Rightarrow> s | None \<Rightarrow> 0), i + 1)"

definition calculate_expire_at :: "clock \<Rightarrow> u64 \<Rightarrow> nat \<Rightarrow> u64 \<times> nat" where
  "calculate_expire_at clk exptime i =
     (if exptime = 0 then (0, i)
      else if exptime \<le> MAX_RELATIVE_TTL then
        (let (now, i') = current_timestamp clk i in (saturating_add now exptime, i'))
      else (exptime, i))"

definition value_new :: "clock \<Rightarrow> u32 \<Rightarrow> u64 \<Rightarrow> bytes \<Rightarrow> nat \<Rightarrow> stored_value \<times> nat" where
  "value_new clk flags exptime data i =
     (let (expire_at, i') = calculate_expire_at clk exptime i
      in (\<lparr>sv_expire_at = expire_at, sv_flags = flags, sv_data = data\<rparr>, i'))"

definition with_expire_at :: "u32 \<Rightarrow> u64 \<Rightarrow> bytes \<Rightarrow> stored_value" where
  "with_expire_at flags expire_at data =
     \<lparr>sv_expire_at = expire_at, sv_flags = flags, sv_data = data\<rparr>"

definition encode :: "stored_value \<Rightarrow> bytes" where
  "encode v = u64_to_le_bytes (sv_expire_at v) @ u32_to_le_bytes (sv_flags v) @ sv_data v"

definition decode :: "bytes \<Rightarrow> 'e storage_error + stored_value" where
  "decode b =
     (if length b < 12 then Inl (Decoding (bs ''Value too short to decode''))
      else (case try_into_array 8 (take 8 b) of
          None \<Rightarrow> Inl (Decoding (bs ''Invalid expire_at''))
        | Some ea \<Rightarrow>
      (case try_into_array 4 (take 4 (drop 8 b)) of
          None \<Rightarrow> Inl (Decoding (bs ''Invalid flags''))
        | Some fl \<Rightarrow>
          Inr \<lparr>sv_expire_at = u64_from_le_bytes ea, sv_flags = u32_from_le_bytes fl,
            sv_data = drop 12 b\<rparr>)))"

definition is_expired :: "clock \<Rightarrow> stored_value \<Rightarrow> nat \<Rightarrow> bool \<times> nat" where
  "is_expired clk v i =
     (if sv_expire_at v = 0 then (False, i)
      else (let (now, i') = current_timestamp clk i in (sv_expire_at v \<le> now, i')))"

definition touch :: "clock \<Rightarrow> u64 \<Rightarrow> stored_value \<Rightarrow> nat \<Rightarrow> stored_value \<times> nat" where
  "touch clk exptime v i =
     (let (expire_at, i') = calculate_expire_at clk exptime i
      in (v\<lparr>sv_expire_at := expire_at\<rparr>, i'))"

definition as_u64 :: "stored_value \<Rightarrow> 'e storage_error + u64" where
  "as_u64 v =
     (case from_utf8 (sv_data v) of
        None \<Rightarrow> Inl NotNumeric
      | Some s \<Rightarrow> (case from_str_uint (str_trim s) of None \<Rightarrow> Inl NotNumeric | Some n \<Rightarrow> Inr n))"

definition set_numeric :: "u64 \<Rightarrow> stored_value \<Rightarrow> stored_value" where
  "set_numeric n v = v\<lparr>sv_data := to_decimal (unat n)\<rparr>"

lemmas value_defs = MAX_RELATIVE_TTL_def current_timestamp_def calculate_expire_at_def value_new_def
  with_expire_at_def encode_def decode_def is_expired_def touch_def as_u64_def set_numeric_def

lemmas [run_simps] = value_defs

section \<open>The binary format\<close>

lemma encode_length: "length (encode v) = 12 + length (sv_data v)"
  by (simp add: encode_def le64.enc_width le32.enc_width)

lemma decode_eq:
  "decode b =
     (if length b < 12 then Inl (Decoding (bs ''Value too short to decode''))
      else Inr \<lparr>sv_expire_at = u64_from_le_bytes (take 8 b),
             sv_flags = u32_from_le_bytes (take 4 (drop 8 b)), sv_data = drop 12 b\<rparr>)"
  by (simp add: decode_def try_into_array_def)

lemma u64_from_to: "u64_from_le_bytes (u64_to_le_bytes w) = w"
  using le64.dec_enc [of w] by (simp add: try_into_array_def le64.enc_width)

lemma u32_from_to: "u32_from_le_bytes (u32_to_le_bytes w) = w"
  using le32.dec_enc [of w] by (simp add: try_into_array_def le32.enc_width)

lemma take_encode: "take 8 (encode v) = u64_to_le_bytes (sv_expire_at v)"
  unfolding encode_def by (rule le64.take_enc)

lemma decode_encode: "decode (encode v) = Inr v"
proof -
  have rest: "drop 8 (encode v) = u32_to_le_bytes (sv_flags v) @ sv_data v"
    unfolding encode_def by (rule le64.drop_enc)
  have "drop 12 (encode v) = drop 4 (drop 8 (encode v))" by simp
  then have "drop 12 (encode v) = sv_data v" unfolding rest by (simp only: le32.drop_enc)
  moreover have "take 4 (drop 8 (encode v)) = u32_to_le_bytes (sv_flags v)"
    unfolding rest by (rule le32.take_enc)
  ultimately show ?thesis
    by (simp add: decode_eq encode_length take_encode u64_from_to u32_from_to)
qed

lemma encode_decode:
  assumes "decode b = Inr v" shows "encode v = b"
proof -
  have l: "\<not> length b < 12" and v: "v = \<lparr>sv_expire_at = u64_from_le_bytes (take 8 b),
      sv_flags = u32_from_le_bytes (take 4 (drop 8 b)), sv_data = drop 12 b\<rparr>"
    using assms by (auto simp: decode_eq split: if_splits)
  then have "encode v = take 8 b @ take 4 (drop 8 b) @ drop 12 b"
    by (simp add: encode_def u64_le_from_to u32_le_from_to)
  also have "take 4 (drop 8 b) @ drop 12 b = drop 8 b"
    using append_take_drop_id [of 4 "drop 8 b"] by simp
  finally show ?thesis by simp
qed

interpretation stored: codec encode "\<lambda>b. case decode b of Inl e \<Rightarrow> None | Inr v \<Rightarrow> Some v"
  by unfold_locales (simp add: decode_encode)

lemma decode_Inl_iff: "(\<exists>e. decode b = Inl e) \<longleftrightarrow> length b < 12"
  by (auto simp: decode_eq)

section \<open>Expiry\<close>

text \<open>Whether a value counts as expired when the clock reads \<open>t\<close> seconds.\<close>

definition expired_at :: "u64 \<Rightarrow> stored_value \<Rightarrow> bool" where
  "expired_at t v \<longleftrightarrow> sv_expire_at v \<noteq> 0 \<and> sv_expire_at v \<le> t"

text \<open>The reading a call takes.\<close>

abbreviation reading :: "clock \<Rightarrow> nat \<Rightarrow> u64" where
  "reading clk i \<equiv> fst (current_timestamp clk i)"

lemma is_expired_fst: "fst (is_expired clk v i) \<longleftrightarrow> expired_at (reading clk i) v"
  by (simp add: is_expired_def expired_at_def split: prod.split)

lemma expired_at_mono: "expired_at t v \<Longrightarrow> t \<le> t' \<Longrightarrow> expired_at t' v"
  by (auto simp: expired_at_def)

lemma as_u64_set_numeric: "as_u64 (set_numeric n v) = Inr n"
proof -
  have ascii: "\<forall>b \<in> set (to_decimal (unat n)). 32 < b \<and> b < 128"
    by (auto dest: to_decimal_ascii is_digit_ascii)
  then have "utf8_valid (to_decimal (unat n))" by (intro utf8_valid_ascii) auto
  with ascii show ?thesis
    by (simp add: as_u64_def set_numeric_def from_utf8_def str_trim_ascii from_str_uint_to_decimal)
qed

lemma ttl_rule:
  assumes "value_new clk flags exptime data i = (v, i')"
  shows "expired_at t v \<longleftrightarrow>
    (if exptime = 0 then False
     else if unat exptime \<le> 2592000 then
       min (2 ^ 64 - 1) (unat (reading clk i) + unat exptime) \<le> unat t
     else unat exptime \<le> unat t)"
proof -
  have rel: "exptime \<le> MAX_RELATIVE_TTL \<longleftrightarrow> unat exptime \<le> 2592000"
    by (simp add: MAX_RELATIVE_TTL_def word_le_nat_alt)
  have ea: "sv_expire_at v = fst (calculate_expire_at clk exptime i)"
    using assms by (auto simp: value_new_def split: prod.splits)
  have sat: "saturating_add a b \<noteq> 0" if "b \<noteq> 0" for a b :: u64
  proof -
    have "unat b \<noteq> 0" using that by (simp add: unat_eq_0)
    then have "unat (saturating_add a b) \<noteq> 0" by (simp add: unat_saturating_add)
    then show ?thesis by (metis unat_0)
  qed
  show ?thesis
    using rel sat
    by (auto simp: expired_at_def ea calculate_expire_at_def word_le_nat_alt unat_saturating_add
        split: prod.splits)
qed

text \<open>Touching a value is storing it again: flags and data stay, the deadline is a fresh value's.\<close>

lemma touch_is_new_deadline:
  "touch clk exptime v i = value_new clk (sv_flags v) exptime (sv_data v) i"
  by (cases v) (simp add: touch_def value_new_def split: prod.split)

section \<open>Properties\<close>

text \<open>
  C23: The stored format is a bijection: a byte string decodes to a value exactly when it is that
  value's encoding, and the only strings that do not decode are the ones shorter than the 12-byte
  header.
\<close>

theorem decode_iff_encode:
  fixes b :: bytes
  shows "((decode b :: 'e storage_error + stored_value) = Inr v \<longleftrightarrow> b = encode v) \<and>
    ((\<exists>e. (decode b :: 'e storage_error + stored_value) = Inl e) \<longleftrightarrow> length b < 12)"
  using encode_decode [of b v] decode_encode [of v] decode_Inl_iff [of b] by auto

text \<open>
  C24: The TTL rules: a value stored with exptime 0 never expires; up to 30 days, exptime counts
  seconds from the moment of the store, saturating at the largest time; above that it is the Unix
  time itself.  The value counts as expired exactly from that second on.
\<close>

theorem ttl_expiry:
  assumes "value_new clk flags exptime data i = (v, i')"
  shows "fst (is_expired clk v j) \<longleftrightarrow>
    (if exptime = 0 then False
     else if unat exptime \<le> 30 * 24 * 60 * 60 then
       min (2 ^ 64 - 1) (unat (reading clk i) + unat exptime) \<le> unat (reading clk j)
     else unat exptime \<le> unat (reading clk j))"
  using ttl_rule [OF assms, of "reading clk j"] by (simp add: is_expired_fst)

theorem ttl_expiry_witness:
  "fst (is_expired (\<lambda>i. 1000000000 * int i) \<lparr>sv_expire_at = 60, sv_flags = 1, sv_data = []\<rparr> 60)"
proof -
  have "value_new (\<lambda>i. 1000000000 * int i) 1 60 [] 0 =
      (\<lparr>sv_expire_at = 60, sv_flags = 1, sv_data = []\<rparr>, 1)"
    by (simp add: run_simps)
  from ttl_expiry [OF this, of 60] show ?thesis by (simp add: run_simps)
qed

text \<open>
  Numbers written into a value are read back: after \<open>set_numeric\<close> the value holds the decimal
  text of the number, \<open>as_u64\<close> returns it, and flags and deadline are untouched.
\<close>

theorem numeric_roundtrip:
  "as_u64 (set_numeric n v) = Inr n \<and> sv_data (set_numeric n v) = to_decimal (unat n) \<and>
     sv_flags (set_numeric n v) = sv_flags v \<and> sv_expire_at (set_numeric n v) = sv_expire_at v"
  by (simp add: as_u64_set_numeric) (simp add: set_numeric_def)

end
