(* ===== verification/Rocks.thy ===== *)
theory Rocks
  imports Value
begin

text \<open>
  The storage backend of \<open>src/storage/rocks.rs\<close>.  The database of the \<open>rust_rocksdb\<close> crate is a
  parameter: the record \<open>rocksdb_crate\<close> holds the calls the program makes on a handle of type
  \<open>'db\<close>, each returning its result and the handle's next state, and the locale \<open>rocksdb\<close> states
  their documented behaviour in terms of the contents of the database.  The two global counters, the
  number of clock readings and whether the database was opened with the TTL filter, which its handle
  remembers, are part of the storage state.
\<close>

section \<open>Definitions\<close>

record write_options =
  wo_disable_wal :: bool

datatype compaction_decision = Keep | Remove

text \<open>
  \<open>db_compaction\<close> is the list of entries a full compaction presents to the filter, and
  \<open>db_drop\<close> the database after it, given the entries the filter decided to remove.
\<close>

record ('db, 'e) rocksdb_crate =
  db_get :: "'db \<Rightarrow> bytes \<Rightarrow> ('e + bytes option) \<times> 'db"
  db_multi_get :: "'db \<Rightarrow> bytes list \<Rightarrow> ('e + bytes option) list \<times> 'db"
  db_put_opt :: "'db \<Rightarrow> bytes \<Rightarrow> bytes \<Rightarrow> write_options \<Rightarrow> ('e + unit) \<times> 'db"
  db_delete_opt :: "'db \<Rightarrow> bytes \<Rightarrow> write_options \<Rightarrow> ('e + unit) \<times> 'db"
  db_property_int_value :: "'db \<Rightarrow> str \<Rightarrow> 'e + u64 option"
  db_compaction :: "'db \<Rightarrow> (u32 \<times> bytes \<times> bytes) list"
  db_drop :: "'db \<Rightarrow> (bytes \<times> bytes) list \<Rightarrow> 'db"

record 'db storage =
  st_db :: 'db
  st_write_opts :: write_options
  st_ttl_filter :: bool
  st_expired_keys_removed :: u64
  st_ttl_compaction_removed :: u64
  st_clock :: nat

record memory_usage =
  mu_block_cache_usage :: usize
  mu_total :: usize

record ttl_stats =
  ts_expired_removed :: u64
  ts_compaction_removed :: u64

definition rocks_get ::
    "('db, 'e) rocksdb_crate \<Rightarrow> clock \<Rightarrow> bytes \<Rightarrow> 'db storage \<Rightarrow>
      ('e storage_error + stored_value option) \<times> 'db storage" where
  "rocks_get R clk key s =
     (let (res, d) = db_get R (st_db s) key; s = s\<lparr>st_db := d\<rparr>
      in (case res of
            Inl e \<Rightarrow> (Inl (RocksDb e), s)
          | Inr None \<Rightarrow> (Inr None, s)
          | Inr (Some b) \<Rightarrow>
              (case decode b of
                 Inl e \<Rightarrow> (Inl e, s)
               | Inr v \<Rightarrow>
                   (let (expired, i) = is_expired clk v (st_clock s); s = s\<lparr>st_clock := i\<rparr>
                    in if expired then
                         (let s = s\<lparr>st_expired_keys_removed := st_expired_keys_removed s + 1\<rparr>;
                              (ignored, d) = db_delete_opt R (st_db s) key (st_write_opts s)
                          in (Inr None, s\<lparr>st_db := d\<rparr>))
                       else (Inr (Some v), s)))))"

fun multi_loop ::
    "clock \<Rightarrow> (bytes \<times> ('e + bytes option)) list \<Rightarrow> (bytes \<times> stored_value option) list \<Rightarrow>
      bytes list \<Rightarrow> nat \<Rightarrow>
      ('e storage_error + (bytes \<times> stored_value option) list \<times> bytes list) \<times> nat" where
  "multi_loop clk [] results expired_keys i = (Inr (results, expired_keys), i)"
| "multi_loop clk ((key, raw) # rest) results expired_keys i =
     (case raw of
        Inr (Some b) \<Rightarrow>
          (case decode b of
             Inl e \<Rightarrow> (Inl e, i)
           | Inr v \<Rightarrow>
               (let (expired, i) = is_expired clk v i
                in if expired then
                     multi_loop clk rest (results @ [(key, None)]) (expired_keys @ [key]) i
                   else multi_loop clk rest (results @ [(key, Some v)]) expired_keys i))
      | Inr None \<Rightarrow> multi_loop clk rest (results @ [(key, None)]) expired_keys i
      | Inl e \<Rightarrow> (Inl (RocksDb e), i))"

fun delete_all ::
    "('db, 'e) rocksdb_crate \<Rightarrow> write_options \<Rightarrow> bytes list \<Rightarrow> 'db \<Rightarrow> 'db" where
  "delete_all R wo [] d = d"
| "delete_all R wo (key # keys) d =
     (let (ignored, d) = db_delete_opt R d key wo in delete_all R wo keys d)"

definition rocks_get_multi ::
    "('db, 'e) rocksdb_crate \<Rightarrow> clock \<Rightarrow> bytes list \<Rightarrow> 'db storage \<Rightarrow>
      ('e storage_error + (bytes \<times> stored_value option) list) \<times> 'db storage" where
  "rocks_get_multi R clk keys s =
     (let (raw_results, d) = db_multi_get R (st_db s) keys;
          s = s\<lparr>st_db := d\<rparr>;
          (res, i) = multi_loop clk (zip keys raw_results) [] [] (st_clock s);
          s = s\<lparr>st_clock := i\<rparr>
      in (case res of
            Inl e \<Rightarrow> (Inl e, s)
          | Inr (results, expired_keys) \<Rightarrow>
              if expired_keys \<noteq> [] then
                (Inr results,
                 s\<lparr>st_expired_keys_removed :=
                     st_expired_keys_removed s + of_nat (length expired_keys),
                   st_db := delete_all R (st_write_opts s) expired_keys (st_db s)\<rparr>)
              else (Inr results, s)))"

definition rocks_set ::
    "('db, 'e) rocksdb_crate \<Rightarrow> bytes \<Rightarrow> stored_value \<Rightarrow> 'db storage \<Rightarrow>
      ('e storage_error + unit) \<times> 'db storage" where
  "rocks_set R key v s =
     (let encoded = encode v;
          (res, d) = db_put_opt R (st_db s) key encoded (st_write_opts s);
          s = s\<lparr>st_db := d\<rparr>
      in (case res of Inl e \<Rightarrow> (Inl (RocksDb e), s) | Inr u \<Rightarrow> (Inr (), s)))"

definition rocks_delete ::
    "('db, 'e) rocksdb_crate \<Rightarrow> bytes \<Rightarrow> 'db storage \<Rightarrow>
      ('e storage_error + bool) \<times> 'db storage" where
  "rocks_delete R key s =
     (let (res, d) = db_get R (st_db s) key; s = s\<lparr>st_db := d\<rparr>
      in (case res of
            Inl e \<Rightarrow> (Inl (RocksDb e), s)
          | Inr found \<Rightarrow>
              (let existed = (found \<noteq> None);
                   (res, d) = db_delete_opt R (st_db s) key (st_write_opts s);
                   s = s\<lparr>st_db := d\<rparr>
               in (case res of Inl e \<Rightarrow> (Inl (RocksDb e), s) | Inr u \<Rightarrow> (Inr existed, s)))))"

definition memory_usage_of :: "('db, 'e) rocksdb_crate \<Rightarrow> 'db storage \<Rightarrow> memory_usage" where
  "memory_usage_of R s =
     (let block_cache_usage =
            (case db_property_int_value R (st_db s) (bs ''rocksdb.block-cache-usage'') of
               Inl e \<Rightarrow> 0 | Inr None \<Rightarrow> 0 | Inr (Some n) \<Rightarrow> n)
      in \<lparr>mu_block_cache_usage = block_cache_usage, mu_total = block_cache_usage\<rparr>)"

definition ttl_stats_of :: "'db storage \<Rightarrow> ttl_stats" where
  "ttl_stats_of s =
     \<lparr>ts_expired_removed = st_expired_keys_removed s,
      ts_compaction_removed = st_ttl_compaction_removed s\<rparr>"

text \<open>
  The compaction filter, a callback of the database: it sees the level, key and value of an entry,
  the counter and the clock.
\<close>

definition ttl_compaction_filter ::
    "clock \<Rightarrow> u32 \<Rightarrow> bytes \<Rightarrow> bytes \<Rightarrow> u64 \<times> nat \<Rightarrow> compaction_decision \<times> u64 \<times> nat" where
  "ttl_compaction_filter clk level key val st =
     (let (removed, i) = st
      in if 8 \<le> length val then
           (let expire_at = u64_from_le_bytes
                  (case try_into_array 8 (take 8 val) of None \<Rightarrow> replicate 8 0 | Some a \<Rightarrow> a)
            in if expire_at \<noteq> 0 then
                 (let (now, i) = current_timestamp clk i
                  in if expire_at \<le> now then (Remove, removed + 1, i) else (Keep, removed, i))
               else (Keep, removed, i))
         else (Keep, removed, i))"

fun run_filter ::
    "clock \<Rightarrow> (u32 \<times> bytes \<times> bytes) list \<Rightarrow> u64 \<times> nat \<Rightarrow> (bytes \<times> bytes) list \<times> u64 \<times> nat" where
  "run_filter clk [] st = ([], st)"
| "run_filter clk ((level, key, val) # rest) st =
     (let (decision, st) = ttl_compaction_filter clk level key val st;
          (dropped, st) = run_filter clk rest st
      in (if decision = Remove then (key, val) # dropped else dropped, st))"

definition rocks_compact ::
    "('db, 'e) rocksdb_crate \<Rightarrow> clock \<Rightarrow> 'db storage \<Rightarrow> 'db storage" where
  "rocks_compact R clk s =
     (let (dropped, removed, i) =
            run_filter clk (if st_ttl_filter s then db_compaction R (st_db s) else [])
              (st_ttl_compaction_removed s, st_clock s)
      in s\<lparr>st_db := db_drop R (st_db s) dropped, st_ttl_compaction_removed := removed,
           st_clock := i\<rparr>)"

lemmas rocks_defs = rocks_get_def rocks_get_multi_def rocks_set_def rocks_delete_def
  memory_usage_of_def ttl_stats_of_def ttl_compaction_filter_def rocks_compact_def

lemmas [run_simps] = rocks_defs

section \<open>What the database promises\<close>

text \<open>
  \<open>contents d\<close> is the key-value map the database stands for.  A read that succeeds returns the
  current value and no read changes the contents.  A write that succeeds is applied; one that fails
  is applied entirely or not at all (a RocksDB write is atomic).  A compaction removes nothing but
  entries the filter dropped.
\<close>

locale rocksdb =
  fixes R :: "('db, 'e) rocksdb_crate" and contents :: "'db \<Rightarrow> bytes \<Rightarrow> bytes option"
  assumes get_result: "db_get R d k = (Inr r, d') \<Longrightarrow> r = contents d k"
    and get_keeps: "db_get R d k = (res, d') \<Longrightarrow> contents d' = contents d"
    and multi_get_length: "db_multi_get R d ks = (rs, d') \<Longrightarrow> length rs = length ks"
    and multi_get_result:
      "db_multi_get R d ks = (rs, d') \<Longrightarrow> i < length ks \<Longrightarrow> rs ! i = Inr r \<Longrightarrow> r = contents d (ks ! i)"
    and multi_get_keeps: "db_multi_get R d ks = (rs, d') \<Longrightarrow> contents d' = contents d"
    and put_ok: "db_put_opt R d k v wo = (Inr u, d') \<Longrightarrow> contents d' = (contents d)(k \<mapsto> v)"
    and put_err:
      "db_put_opt R d k v wo = (Inl e, d') \<Longrightarrow>
         contents d' = contents d \<or> contents d' = (contents d)(k \<mapsto> v)"
    and delete_ok: "db_delete_opt R d k wo = (Inr u, d') \<Longrightarrow> contents d' = (contents d)(k := None)"
    and delete_err:
      "db_delete_opt R d k wo = (Inl e, d') \<Longrightarrow>
         contents d' = contents d \<or> contents d' = (contents d)(k := None)"
    and drop_result:
      "set dropped \<subseteq> {(k, v). \<exists>l. (l, k, v) \<in> set (db_compaction R d)} \<Longrightarrow>
         contents (db_drop R d dropped) k = contents d k \<or>
         contents (db_drop R d dropped) k = None \<and> (\<exists>v. (k, v) \<in> set dropped \<and> contents d k = Some v)"

section \<open>The cache the database stands for\<close>

definition decode_opt :: "bytes \<Rightarrow> stored_value option" where
  "decode_opt b = (case (decode b :: unit storage_error + stored_value) of Inl e \<Rightarrow> None | Inr v \<Rightarrow> Some v)"

text \<open>What a client can see when the clock reads \<open>t\<close>: the entries that have not expired.\<close>

definition live_view :: "u64 \<Rightarrow> (bytes \<Rightarrow> bytes option) \<Rightarrow> bytes \<Rightarrow> stored_value option" where
  "live_view t m k =
     (case m k of
        None \<Rightarrow> None
      | Some b \<Rightarrow>
          (case decode_opt b of None \<Rightarrow> None | Some v \<Rightarrow> if expired_at t v then None else Some v))"

text \<open>Every entry carries a complete header.\<close>

definition entries_wf :: "(bytes \<Rightarrow> bytes option) \<Rightarrow> bool" where
  "entries_wf m \<longleftrightarrow> (\<forall>k b. m k = Some b \<longrightarrow> 12 \<le> length b)"

lemma decode_Inr_opt: "decode b = Inr v \<Longrightarrow> decode_opt b = Some v"
  by (auto simp: decode_opt_def decode_eq split: if_splits)

lemma decode_opt_Some: "decode_opt b = Some v \<Longrightarrow> decode b = Inr v"
  by (auto simp: decode_opt_def decode_eq split: if_splits)

lemma decode_opt_encode [simp]: "decode_opt (encode v) = Some v"
  by (simp add: decode_opt_def decode_encode)

lemma entries_wf_upd [intro]: "entries_wf m \<Longrightarrow> entries_wf (m(k \<mapsto> encode v))"
  by (auto simp: entries_wf_def encode_length)

lemma entries_wf_del [intro]: "entries_wf m \<Longrightarrow> entries_wf (m(k := None))"
  by (auto simp: entries_wf_def)

lemma entries_wf_decode: "entries_wf m \<Longrightarrow> m k = Some b \<Longrightarrow> decode b \<noteq> Inl e"
  by (fastforce simp: entries_wf_def decode_eq)

lemma live_view_upd:
  "live_view t (m(k \<mapsto> encode v)) = (live_view t m)(k := if expired_at t v then None else Some v)"
  by (auto simp: live_view_def fun_eq_iff)

lemma live_view_del: "live_view t (m(k := None)) = (live_view t m)(k := None)"
  by (auto simp: live_view_def fun_eq_iff)

lemma live_view_del_dead: "live_view t m k = None \<Longrightarrow> live_view t (m(k := None)) = live_view t m"
  by (auto simp: live_view_del)

lemma live_view_expired:
  "m k = Some b \<Longrightarrow> decode_opt b = Some v \<Longrightarrow> expired_at t v \<Longrightarrow> live_view t m k = None"
  by (simp add: live_view_def)

lemma live_view_None_mono: "live_view t m k = None \<Longrightarrow> t \<le> t' \<Longrightarrow> live_view t' m k = None"
  by (auto simp: live_view_def dest: expired_at_mono split: option.splits if_splits)

section \<open>A reference database with injected faults\<close>

text \<open>
  A map and a script of faults: each call takes the next item of the script and fails, changing
  nothing, when it says so.  It is the concrete database on which the development's closed
  statements are evaluated.
\<close>

type_synonym mem_db = "(bytes \<Rightarrow> bytes option) \<times> bytes list \<times> bool list"

definition mem_empty :: mem_db where
  "mem_empty = (Map.empty, [], [])"

definition next_fault :: "mem_db \<Rightarrow> bool \<times> mem_db" where
  "next_fault d = (case d of
     (m, ks, f # fs) \<Rightarrow> (f, (m, ks, fs)) | (m, ks, []) \<Rightarrow> (False, d))"

definition mem_rocksdb :: "(mem_db, str) rocksdb_crate" where
  "mem_rocksdb =
     \<lparr>db_get = (\<lambda>d k. let (f, d) = next_fault d in (if f then Inl (bs ''fault'') else Inr (fst d k), d)),
      db_multi_get = (\<lambda>d ks. let (f, d) = next_fault d
        in (map (\<lambda>k. if f then Inl (bs ''fault'') else Inr (fst d k)) ks, d)),
      db_put_opt = (\<lambda>d k v wo. let (f, d) = next_fault d
        in if f then (Inl (bs ''fault''), d)
           else (Inr (), ((fst d)(k \<mapsto> v), List.insert k (fst (snd d)), snd (snd d)))),
      db_delete_opt = (\<lambda>d k wo. let (f, d) = next_fault d
        in if f then (Inl (bs ''fault''), d) else (Inr (), ((fst d)(k := None), snd d))),
      db_property_int_value = (\<lambda>d p. Inr (Some (of_nat (length (fst (snd d)))))),
      db_compaction = (\<lambda>d. concat (map (\<lambda>k. case fst d k of
        None \<Rightarrow> [] | Some v \<Rightarrow> [(0, k, v)]) (fst (snd d)))),
      db_drop = (\<lambda>d dropped. (\<lambda>k. if k \<in> fst ` set dropped then None else fst d k, snd d))\<rparr>"

lemma fst_next_fault: "next_fault d = (f, d') \<Longrightarrow> fst d' = fst d"
  by (auto simp: next_fault_def split: prod.splits list.splits)

interpretation mem: rocksdb mem_rocksdb fst
proof unfold_locales
  fix d :: mem_db and dropped :: "(bytes \<times> bytes) list" and k
  assume sub: "set dropped \<subseteq> {(k, v). \<exists>l. (l, k, v) \<in> set (db_compaction mem_rocksdb d)}"
  have cur: "fst d k = Some v" if "(k, v) \<in> set dropped" for v
    using that sub by (fastforce simp: mem_rocksdb_def split: option.splits)
  show "fst (db_drop mem_rocksdb d dropped) k = fst d k \<or>
      fst (db_drop mem_rocksdb d dropped) k = None \<and>
      (\<exists>v. (k, v) \<in> set dropped \<and> fst d k = Some v)"
  proof (cases "k \<in> fst ` set dropped")
    case True
    then obtain v where "(k, v) \<in> set dropped" by force
    with True cur show ?thesis by (auto simp: mem_rocksdb_def)
  qed (simp add: mem_rocksdb_def)
qed (auto simp: mem_rocksdb_def Let_def dest: fst_next_fault split: prod.splits if_splits)

section \<open>The storage operations refine the cache\<close>

text \<open>
  The contract the command handlers rely on: a state shows, at every time, a map from keys to live
  values; \<open>now s\<close> is the time the next call will read.
\<close>

locale cache_store =
  fixes s_get :: "bytes \<Rightarrow> 's \<Rightarrow> ('err + stored_value option) \<times> 's"
    and s_set :: "bytes \<Rightarrow> stored_value \<Rightarrow> 's \<Rightarrow> ('err + unit) \<times> 's"
    and s_delete :: "bytes \<Rightarrow> 's \<Rightarrow> ('err + bool) \<times> 's"
    and view :: "u64 \<Rightarrow> 's \<Rightarrow> bytes \<Rightarrow> stored_value option"
    and now :: "'s \<Rightarrow> u64"
  assumes get_returns: "s_get k s = (Inr r, s') \<Longrightarrow> r = view (now s) s k"
    and get_view: "s_get k s = (res, s') \<Longrightarrow> now s \<le> t \<Longrightarrow> view t s' = view t s"
    and set_view:
      "s_set k v s = (Inr u, s') \<Longrightarrow>
         view t s' = (view t s)(k := if expired_at t v then None else Some v)"
    and delete_view: "s_delete k s = (Inr b, s') \<Longrightarrow> view t s' = (view t s)(k := None)"
begin

lemma set_then_get:
  assumes "s_set k v s = (Inr u, s1)" and "s_get k s1 = (Inr r, s2)"
  shows "r = (if expired_at (now s1) v then None else Some v)"
  using set_view [OF assms(1), of "now s1"] get_returns [OF assms(2)] by simp

lemma set_then_get_other:
  assumes "s_set k v s = (Inr u, s1)" and "s_get k' s1 = (Inr r, s2)" and "k' \<noteq> k"
  shows "r = view (now s1) s k'"
  using set_view [OF assms(1), of "now s1"] get_returns [OF assms(2)] assms(3) by simp

lemma delete_then_get:
  assumes "s_delete k s = (Inr b, s1)" and "s_get k s1 = (Inr r, s2)"
  shows "r = None"
  using delete_view [OF assms(1), of "now s1"] get_returns [OF assms(2)] by simp

end

text \<open>The storage over a database and a clock, as seen by the rest of the server.\<close>

locale rocks_storage = rocksdb R contents
  for R :: "('db, 'e) rocksdb_crate" and contents :: "'db \<Rightarrow> bytes \<Rightarrow> bytes option" +
  fixes clk :: clock
begin

lemma delete_map:
  "db_delete_opt R d k wo = (res, d') \<Longrightarrow>
     contents d' = contents d \<or> contents d' = (contents d)(k := None)"
  using delete_ok delete_err by (cases res) blast+

lemma rocks_get_cases:
  assumes "rocks_get R clk key s = (res, s')"
  defines "m \<equiv> contents (st_db s)" and "t \<equiv> reading clk (st_clock s)"
  shows "(\<exists>e. res = Inl (RocksDb e)) \<and> contents (st_db s') = m
    \<or> res = Inr None \<and> m key = None \<and> contents (st_db s') = m
    \<or> (\<exists>b e. m key = Some b \<and> decode b = Inl e \<and> res = Inl e \<and> contents (st_db s') = m)
    \<or> (\<exists>b v. m key = Some b \<and> decode_opt b = Some v \<and> expired_at t v \<and> res = Inr None \<and>
         (contents (st_db s') = m \<or> contents (st_db s') = m(key := None)))
    \<or> (\<exists>b v. m key = Some b \<and> decode_opt b = Some v \<and> \<not> expired_at t v \<and> res = Inr (Some v) \<and>
         contents (st_db s') = m)"
proof -
  obtain r d where g: "db_get R (st_db s) key = (r, d)" by fastforce
  have d: "contents d = m" using get_keeps [OF g] by (simp add: m_def)
  have res: "x = m key" if "r = Inr x" for x using get_result g that by (simp add: m_def)
  consider (fail) e where "r = Inl e" | (absent) "r = Inr None" "m key = None"
    | (found) b where "r = Inr (Some b)" "m key = Some b"
    using res by (metis not_None_eq sum.exhaust)
  then show ?thesis
  proof cases
    case found
    show ?thesis
    proof (cases "decode b :: 'e storage_error + stored_value")
      case (Inl e)
      then show ?thesis using assms(1) g d found by (auto simp: rocks_get_def)
    next
      case (Inr v)
      obtain ex i where ie: "is_expired clk v (st_clock s) = (ex, i)" by fastforce
      then have ex: "ex = expired_at t v"
        using is_expired_fst [of clk v "st_clock s"] by (simp add: t_def)
      obtain r' d' where del: "db_delete_opt R d key (st_write_opts s) = (r', d')" by fastforce
      have "decode_opt b = Some v" using Inr by (rule decode_Inr_opt)
      moreover have "contents d' = m \<or> contents d' = m(key := None)"
        using delete_map [OF del] d by simp
      ultimately show ?thesis
        using assms(1) g d found Inr ie ex del by (auto simp: rocks_get_def split: if_splits)
    qed
  qed (use assms(1) g d in \<open>auto simp: rocks_get_def\<close>)
qed

lemma rocks_get_returns:
  "rocks_get R clk key s = (Inr r, s') \<Longrightarrow>
     r = live_view (reading clk (st_clock s)) (contents (st_db s)) key"
  by (drule rocks_get_cases) (auto simp: live_view_def)

lemma rocks_get_view:
  assumes "rocks_get R clk key s = (res, s')" and "reading clk (st_clock s) \<le> t"
  shows "live_view t (contents (st_db s')) = live_view t (contents (st_db s))"
  using rocks_get_cases [OF assms(1)] assms(2)
  by (auto intro!: live_view_del_dead live_view_expired dest: expired_at_mono)

lemma rocks_get_wf:
  "rocks_get R clk key s = (res, s') \<Longrightarrow> entries_wf (contents (st_db s)) \<Longrightarrow>
     entries_wf (contents (st_db s'))"
  by (drule rocks_get_cases) (elim disjE exE conjE; simp add: entries_wf_del)

lemma rocks_get_no_decode_error:
  "rocks_get R clk key s = (Inl e, s') \<Longrightarrow> entries_wf (contents (st_db s)) \<Longrightarrow> \<exists>x. e = RocksDb x"
  by (drule rocks_get_cases) (auto dest: entries_wf_decode)

lemma rocks_set_ok:
  "rocks_set R key v s = (Inr u, s') \<Longrightarrow>
     contents (st_db s') = (contents (st_db s))(key \<mapsto> encode v)"
  by (auto simp: rocks_set_def Let_def dest: put_ok split: prod.splits sum.splits)

lemma rocks_set_cases:
  assumes "rocks_set R key v s = (res, s')"
  shows "contents (st_db s') = contents (st_db s) \<and> res \<noteq> Inr () \<or>
    contents (st_db s') = (contents (st_db s))(key \<mapsto> encode v)"
  using assms put_ok put_err
  by (fastforce simp: rocks_set_def Let_def split: prod.splits sum.splits)

lemma rocks_delete_cases:
  assumes "rocks_delete R key s = (res, s')"
  defines "m \<equiv> contents (st_db s)"
  shows "res = Inr (m key \<noteq> None) \<and> contents (st_db s') = m(key := None) \<or>
    (\<exists>e. res = Inl (RocksDb e)) \<and>
      (contents (st_db s') = m \<or> contents (st_db s') = m(key := None))"
proof -
  obtain r d where g: "db_get R (st_db s) key = (r, d)" by fastforce
  have d: "contents d = m" using get_keeps [OF g] by (simp add: m_def)
  obtain r' d' where del: "db_delete_opt R d key (st_write_opts s) = (r', d')" by fastforce
  show ?thesis
  proof (cases r)
    case (Inl e)
    with assms(1) g d show ?thesis by (auto simp: rocks_delete_def)
  next
    case (Inr found)
    then have "found = m key" using g get_result by (simp add: m_def)
    with assms(1) g d del Inr delete_ok [of d key _ _ d'] delete_err [of d key _ _ d']
    show ?thesis by (cases r') (auto simp: rocks_delete_def Let_def)
  qed
qed

lemma rocks_delete_ok:
  "rocks_delete R key s = (Inr b, s') \<Longrightarrow>
     contents (st_db s') = (contents (st_db s))(key := None) \<and> b = (contents (st_db s) key \<noteq> None)"
  by (drule rocks_delete_cases) auto

sublocale store: cache_store "rocks_get R clk" "rocks_set R" "rocks_delete R"
  "\<lambda>t s. live_view t (contents (st_db s))" "\<lambda>s. reading clk (st_clock s)"
  by unfold_locales
    (auto simp: rocks_get_returns rocks_get_view live_view_upd live_view_del
      dest: rocks_set_ok rocks_delete_ok)

end

section \<open>Batched reads\<close>

text \<open>What one item of a batch shows at a time \<open>t\<close>.\<close>

definition raw_view :: "u64 \<Rightarrow> 'e + bytes option \<Rightarrow> stored_value option" where
  "raw_view t raw =
     (case raw of
        Inr (Some b) \<Rightarrow>
          (case decode_opt b of None \<Rightarrow> None | Some v \<Rightarrow> if expired_at t v then None else Some v)
      | _ \<Rightarrow> None)"

text \<open>Some reading the clock gave between the \<open>i\<close>-th and the \<open>i'\<close>-th call makes \<open>P\<close> true.\<close>

definition read_within :: "clock \<Rightarrow> nat \<Rightarrow> nat \<Rightarrow> (u64 \<Rightarrow> bool) \<Rightarrow> bool" where
  "read_within clk i i' P \<longleftrightarrow> (\<exists>j. i \<le> j \<and> j \<le> i' \<and> P (reading clk j))"

lemma read_within_mono:
  "read_within clk i i' P \<Longrightarrow> h \<le> i \<Longrightarrow> i' \<le> i'' \<Longrightarrow> read_within clk h i'' P"
  by (auto simp: read_within_def intro: le_trans)

definition batch_item ::
    "clock \<Rightarrow> nat \<Rightarrow> nat \<Rightarrow> bytes \<times> ('e + bytes option) \<Rightarrow> bytes \<times> stored_value option \<Rightarrow> bool" where
  "batch_item clk i i' x y \<longleftrightarrow>
     fst y = fst x \<and> (\<exists>r. snd x = Inr r) \<and> read_within clk i i' (\<lambda>t. snd y = raw_view t (snd x))"

definition batch_dead :: "clock \<Rightarrow> nat \<Rightarrow> nat \<Rightarrow> (bytes \<times> ('e + bytes option)) list \<Rightarrow> bytes \<Rightarrow> bool" where
  "batch_dead clk i i' xs k \<longleftrightarrow>
     (\<exists>b v. (k, Inr (Some b)) \<in> set xs \<and> decode_opt b = Some v \<and>
       read_within clk i i' (\<lambda>t. expired_at t v))"

lemma is_expired_clock: "is_expired clk v i = (x, i') \<Longrightarrow> i \<le> i' \<and> i' \<le> i + 1"
  by (auto simp: is_expired_def current_timestamp_def split: if_splits)

definition batch_ok ::
    "clock \<Rightarrow> nat \<Rightarrow> nat \<Rightarrow> (bytes \<times> ('e + bytes option)) list \<Rightarrow>
      (bytes \<times> stored_value option) list \<Rightarrow> bytes list \<Rightarrow> bool" where
  "batch_ok clk i i' xs new dead \<longleftrightarrow>
     i \<le> i' \<and> list_all2 (batch_item clk i i') xs new \<and> (\<forall>k \<in> set dead. batch_dead clk i i' xs k)"

lemma batch_dead_Cons: "batch_dead clk h i' xs k \<Longrightarrow> i \<le> h \<Longrightarrow> batch_dead clk i i' (x # xs) k"
proof -
  assume "batch_dead clk h i' xs k" and le: "i \<le> h"
  then obtain b v where bv: "(k, Inr (Some b)) \<in> set xs" "decode_opt b = Some v"
      and rw: "read_within clk h i' (\<lambda>t. expired_at t v)"
    by (auto simp: batch_dead_def)
  from read_within_mono [OF rw le order_refl] bv show "batch_dead clk i i' (x # xs) k"
    by (auto simp: batch_dead_def)
qed

lemma batch_ok_Cons:
  assumes rest: "batch_ok clk h i' xs new dead" and "i \<le> h" and r: "\<exists>r. raw = Inr r"
    and y: "y = raw_view (reading clk i) raw"
    and dk: "dk = [] \<or> dk = [key] \<and> batch_dead clk i i' ((key, raw) # xs) key"
  shows "batch_ok clk i i' ((key, raw) # xs) ((key, y) # new) (dk @ dead)"
proof -
  have "i \<le> i'" using rest \<open>i \<le> h\<close> by (simp add: batch_ok_def)
  moreover have "list_all2 (batch_item clk i i') xs new"
    using rest \<open>i \<le> h\<close> read_within_mono
    by (fastforce simp: batch_ok_def batch_item_def elim!: list_all2_mono)
  moreover have "batch_item clk i i' (key, raw) (key, y)"
    using y r \<open>i \<le> i'\<close> by (auto simp: batch_item_def read_within_def)
  moreover have "batch_dead clk i i' ((key, raw) # xs) k" if "k \<in> set (dk @ dead)" for k
    using that dk rest \<open>i \<le> h\<close> by (auto simp: batch_ok_def intro: batch_dead_Cons)
  ultimately show ?thesis by (simp add: batch_ok_def)
qed

lemma batch_dead_here:
  "decode_opt b = Some v \<Longrightarrow> expired_at (reading clk i) v \<Longrightarrow> i \<le> i' \<Longrightarrow>
     batch_dead clk i i' ((key, Inr (Some b)) # xs) key"
  by (auto simp: batch_dead_def read_within_def)

lemma multi_loop_ok:
  "multi_loop clk xs results expired i = (Inr (rs, es), i') \<Longrightarrow>
     \<exists>new dead. rs = results @ new \<and> es = expired @ dead \<and> batch_ok clk i i' xs new dead"
proof (induction xs arbitrary: results expired i)
  case Nil
  then show ?case by (auto simp: batch_ok_def)
next
  case (Cons x xs)
  obtain key raw where x: "x = (key, raw)" by fastforce
  show ?case
  proof (cases "raw = Inr None")
    case True
    then obtain new dead where IH: "rs = results @ (key, None) # new" "es = expired @ dead"
        "batch_ok clk i i' xs new dead"
      using Cons.IH [of "results @ [(key, None)]" expired i] Cons.prems x by auto
    then show ?thesis
      using batch_ok_Cons [OF IH(3), of i raw None "[]" key] True x by (auto simp: raw_view_def)
  next
    case False
    then obtain b v where b: "raw = Inr (Some b)" and v: "decode b = (Inr v :: 'a storage_error + _)"
      using Cons.prems x by (auto split: sum.splits option.splits)
    obtain ex h where ex: "is_expired clk v i = (ex, h)" by fastforce
    have "i \<le> h" using is_expired_clock [OF ex] by simp
    have d: "decode_opt b = Some v" using v by (rule decode_Inr_opt)
    have dead: "ex \<longleftrightarrow> expired_at (reading clk i) v" using is_expired_fst [of clk v i] ex by simp
    let ?y = "raw_view (reading clk i) raw" and ?dk = "if ex then [key] else []"
    have y: "?y = (if ex then None else Some v)" using b d dead by (simp add: raw_view_def)
    then have "multi_loop clk xs (results @ [(key, ?y)]) (expired @ ?dk) h = (Inr (rs, es), i')"
      using Cons.prems x b v ex by (auto split: if_splits)
    then obtain new dead' where IH: "rs = results @ (key, ?y) # new" "es = expired @ ?dk @ dead'"
        "batch_ok clk h i' xs new dead'"
      using Cons.IH by fastforce
    have "h \<le> i'" using IH(3) by (simp add: batch_ok_def)
    then have "batch_ok clk i i' ((key, raw) # xs) ((key, ?y) # new) (?dk @ dead')"
      using \<open>i \<le> h\<close> dead d b
      by (intro batch_ok_Cons [OF IH(3)]) (auto intro: batch_dead_here)
    with IH x show ?thesis by auto
  qed
qed

lemma multi_loop_error:
  "multi_loop clk xs results expired i = (Inl e, i') \<Longrightarrow>
     (\<exists>x. e = RocksDb x) \<or> (\<exists>k b. (k, Inr (Some b)) \<in> set xs \<and> decode b = Inl e)"
proof (induction xs arbitrary: results expired i)
  case (Cons x xs)
  then show ?case
    by (cases x) (fastforce split: sum.splits option.splits prod.splits if_splits)
qed simp

context rocks_storage
begin

lemma delete_all_map:
  "contents (delete_all R wo ks d) k = contents d k \<or>
     k \<in> set ks \<and> contents (delete_all R wo ks d) k = None"
proof (induction ks arbitrary: d)
  case (Cons key ks)
  obtain r d' where del: "db_delete_opt R d key wo = (r, d')" by fastforce
  from Cons.IH [of d'] delete_map [OF del] del show ?case by (auto split: if_splits)
qed simp

lemma rocks_get_multi_cases:
  assumes "rocks_get_multi R clk keys s = (res, s')"
  defines "m \<equiv> contents (st_db s)"
  shows "(\<exists>e. res = Inl e) \<and> contents (st_db s') = m \<and> (entries_wf m \<longrightarrow> (\<exists>x. res = Inl (RocksDb x)))
    \<or> (\<exists>(raws :: ('e + bytes option) list) new dead. res = Inr new \<and> length raws = length keys \<and>
         (\<forall>j r. j < length keys \<longrightarrow> raws ! j = Inr r \<longrightarrow> r = m (keys ! j)) \<and>
         batch_ok clk (st_clock s) (st_clock s') (zip keys raws) new dead \<and>
         (\<forall>k. contents (st_db s') k = m k \<or> k \<in> set dead \<and> contents (st_db s') k = None))"
proof -
  obtain raws d where g: "db_multi_get R (st_db s) keys = (raws, d)" by fastforce
  have d: "contents d = m" using multi_get_keeps [OF g] by (simp add: m_def)
  have len: "length raws = length keys" using multi_get_length [OF g] .
  have raw: "r = m (keys ! j)" if "j < length keys" "raws ! j = Inr r" for j r
    using multi_get_result [OF g] that by (simp add: m_def)
  obtain lr i where l: "multi_loop clk (zip keys raws) [] [] (st_clock s) = (lr, i)" by fastforce
  show ?thesis
  proof (cases lr)
    case (Inl e)
    have "decode b \<noteq> Inl e" if wf: "entries_wf m" and b: "(k, Inr (Some b)) \<in> set (zip keys raws)" for k b
    proof -
      obtain j where "j < length keys" "raws ! j = Inr (Some b)"
        using b len by (auto simp: set_zip)
      then have "m (keys ! j) = Some b" using raw by metis
      with wf show ?thesis by (rule entries_wf_decode)
    qed
    with multi_loop_error [of clk "zip keys raws" "[]" "[]" "st_clock s" e i] l Inl
    have "entries_wf m \<longrightarrow> (\<exists>x. e = RocksDb x)" by blast
    with assms(1) g d l Inl show ?thesis by (auto simp: rocks_get_multi_def)
  next
    case (Inr p)
    then obtain new dead where p: "lr = Inr (new, dead)" by (cases p) auto
    have ok: "batch_ok clk (st_clock s) i (zip keys raws) new dead"
      using multi_loop_ok [of clk "zip keys raws" "[]" "[]" "st_clock s" new dead i] l p by auto
    have del: "\<forall>k. contents (delete_all R (st_write_opts s) dead d) k = contents d k \<or>
        k \<in> set dead \<and> contents (delete_all R (st_write_opts s) dead d) k = None"
      using delete_all_map by blast
    have "st_clock s' = i \<and> res = Inr new \<and>
        (\<forall>k. contents (st_db s') k = m k \<or> k \<in> set dead \<and> contents (st_db s') k = None)"
      using assms(1) g d l p del
      by (auto simp: rocks_get_multi_def Let_def split: if_splits)
    with len raw ok show ?thesis
      by (intro disjI2 exI [of _ raws] exI [of _ new] exI [of _ dead]) simp
  qed
qed

lemma batch_values:
  assumes "batch_ok clk i i' (zip keys raws) new dead" and len: "length raws = length keys"
    and raw: "\<forall>j r. j < length keys \<longrightarrow> raws ! j = Inr r \<longrightarrow> r = m (keys ! j)"
  shows "length new = length keys"
    and "j < length keys \<Longrightarrow>
      fst (new ! j) = keys ! j \<and> read_within clk i i' (\<lambda>t. snd (new ! j) = live_view t m (keys ! j))"
    and "k \<in> set dead \<Longrightarrow> read_within clk i i' (\<lambda>t. live_view t m k = None)"
proof -
  have all: "list_all2 (batch_item clk i i') (zip keys raws) new"
    using assms(1) by (simp add: batch_ok_def)
  show l: "length new = length keys" using list_all2_lengthD [OF all] len by simp
  show "fst (new ! j) = keys ! j \<and> read_within clk i i' (\<lambda>t. snd (new ! j) = live_view t m (keys ! j))"
    if "j < length keys"
  proof -
    have "batch_item clk i i' (zip keys raws ! j) (new ! j)"
      using all that len by (simp add: list_all2_conv_all_nth)
    moreover have "raw_view t (raws ! j) = live_view t m (keys ! j)" if "raws ! j = Inr r" for t r
      using that raw \<open>j < length keys\<close>
      by (auto simp: raw_view_def live_view_def split: option.splits)
    ultimately show ?thesis using that len by (auto simp: batch_item_def)
  qed
  show "read_within clk i i' (\<lambda>t. live_view t m k = None)" if dead: "k \<in> set dead"
  proof -
    obtain b v where "(k, Inr (Some b)) \<in> set (zip keys raws)" and v: "decode_opt b = Some v"
      and rw: "read_within clk i i' (\<lambda>t. expired_at t v)"
      using assms(1) dead by (auto simp: batch_ok_def batch_dead_def)
    then have "m k = Some b" using raw len by (auto simp: set_zip) metis
    with v rw show ?thesis by (auto simp: read_within_def live_view_expired)
  qed
qed

lemma rocks_get_multi_values:
  assumes "rocks_get_multi R clk keys s = (Inr rs, s')"
  shows "map fst rs = keys \<and> (\<forall>j < length keys.
    read_within clk (st_clock s) (st_clock s')
      (\<lambda>t. snd (rs ! j) = live_view t (contents (st_db s)) (keys ! j)))"
proof -
  obtain raws :: "('e + bytes option) list" and dead where b: "length raws = length keys"
      "\<forall>j r. j < length keys \<longrightarrow> raws ! j = Inr r \<longrightarrow> r = contents (st_db s) (keys ! j)"
      "batch_ok clk (st_clock s) (st_clock s') (zip keys raws) rs dead"
    using rocks_get_multi_cases [OF assms] by auto
  note v = batch_values [OF b(3,1,2)]
  show ?thesis using v(1,2) by (auto intro: nth_equalityI)
qed

lemma rocks_get_multi_view:
  assumes "rocks_get_multi R clk keys s = (res, s')"
    and "\<forall>j. st_clock s \<le> j \<and> j \<le> st_clock s' \<longrightarrow> reading clk j \<le> t"
  shows "live_view t (contents (st_db s')) = live_view t (contents (st_db s))"
  using rocks_get_multi_cases [OF assms(1)]
proof (elim disjE exE conjE)
  fix raws :: "('e + bytes option) list" and new dead
  assume b: "length raws = length keys"
      "\<forall>j r. j < length keys \<longrightarrow> raws ! j = Inr r \<longrightarrow> r = contents (st_db s) (keys ! j)"
      "batch_ok clk (st_clock s) (st_clock s') (zip keys raws) new dead"
    and c: "\<forall>k. contents (st_db s') k = contents (st_db s) k \<or>
      k \<in> set dead \<and> contents (st_db s') k = None"
  have dead: "live_view t (contents (st_db s)) k = None" if "k \<in> set dead" for k
    using batch_values(3) [OF b(3,1,2) that] assms(2) live_view_None_mono
    by (auto simp: read_within_def)
  show ?thesis
  proof
    fix k
    show "live_view t (contents (st_db s')) k = live_view t (contents (st_db s)) k"
      using c [rule_format, of k] dead [of k] by (auto simp: live_view_def)
  qed
qed simp

lemma rocks_get_multi_wf:
  "rocks_get_multi R clk keys s = (res, s') \<Longrightarrow> entries_wf (contents (st_db s)) \<Longrightarrow>
     entries_wf (contents (st_db s'))"
  by (drule rocks_get_multi_cases) (auto simp: entries_wf_def, metis option.distinct(1))

lemma rocks_set_wf:
  "rocks_set R k v s = (res, s') \<Longrightarrow> entries_wf (contents (st_db s)) \<Longrightarrow> entries_wf (contents (st_db s'))"
  by (drule rocks_set_cases) auto

lemma rocks_delete_wf:
  "rocks_delete R k s = (res, s') \<Longrightarrow> entries_wf (contents (st_db s)) \<Longrightarrow> entries_wf (contents (st_db s'))"
  by (drule rocks_delete_cases) (elim disjE conjE; simp add: entries_wf_del)

end

section \<open>Compaction\<close>

lemma filter_remove_iff:
  assumes "ttl_compaction_filter clk l k b (c, i) = (dec, c', i')" and "decode_opt b = Some v"
  shows "dec = Remove \<longleftrightarrow> expired_at (reading clk i) v"
    and "i \<le> i' \<and> (dec = Remove \<longrightarrow> i < i')"
    and "c' = (if dec = Remove then c + 1 else c)"
proof -
  have "12 \<le> length b" and v: "sv_expire_at v = u64_from_le_bytes (take 8 b)"
    using decode_opt_Some [OF assms(2)] by (auto simp: decode_eq split: if_splits)
  then show "dec = Remove \<longleftrightarrow> expired_at (reading clk i) v"
    and "i \<le> i' \<and> (dec = Remove \<longrightarrow> i < i')" and "c' = (if dec = Remove then c + 1 else c)"
    using assms(1)
    by (auto simp: ttl_compaction_filter_def try_into_array_def expired_at_def Let_def
        current_timestamp_def split: if_splits)
qed

lemma filter_counts:
  "ttl_compaction_filter clk l k b (c, i) = (dec, c', i') \<Longrightarrow>
     i \<le> i' \<and> c' = c + of_nat (if dec = Remove then 1 else 0)"
  by (auto simp: ttl_compaction_filter_def Let_def current_timestamp_def split: if_splits)

lemma run_filter_dropped:
  "run_filter clk es (c, i) = (dropped, c', i') \<Longrightarrow>
     i \<le> i' \<and> c' = c + of_nat (length dropped) \<and>
     (\<forall>(k, b) \<in> set dropped. (\<exists>l. (l, k, b) \<in> set es) \<and>
       (\<forall>v. decode_opt b = Some v \<longrightarrow> (\<exists>j. i \<le> j \<and> j < i' \<and> expired_at (reading clk j) v)))"
proof (induction es arbitrary: c i dropped)
  case (Cons e es)
  obtain l k b where e: "e = (l, k, b)" by (cases e)
  obtain d c1 i1 where f: "ttl_compaction_filter clk l k b (c, i) = (d, c1, i1)" by (metis prod.exhaust)
  obtain dr where r: "run_filter clk es (c1, i1) = (dr, c', i')"
    and dropped: "dropped = (if d = Remove then (k, b) # dr else dr)"
    using Cons.prems e f by (auto split: prod.splits)
  note IH = Cons.IH [OF r] and fc = filter_counts [OF f]
  have rest: "(\<exists>l. (l, k', b') \<in> set (e # es)) \<and>
      (\<forall>v. decode_opt b' = Some v \<longrightarrow> (\<exists>j. i \<le> j \<and> j < i' \<and> expired_at (reading clk j) v))"
    if "(k', b') \<in> set dr" for k' b'
  proof -
    from IH that have "\<exists>l. (l, k', b') \<in> set es" and
      "\<forall>v. decode_opt b' = Some v \<longrightarrow> (\<exists>j. i1 \<le> j \<and> j < i' \<and> expired_at (reading clk j) v)" by auto
    with fc show ?thesis by (meson le_trans list.set_intros(2))
  qed
  have here: "\<exists>j. i \<le> j \<and> j < i' \<and> expired_at (reading clk j) v"
    if "d = Remove" "decode_opt b = Some v" for v
    using filter_remove_iff [OF f that(2)] that(1) IH by (intro exI [of _ i]) auto
  show ?case using IH fc rest here dropped e by auto
qed simp

context rocks_storage
begin

lemma compact_drops:
  assumes "s' = rocks_compact R clk s" and wf: "entries_wf (contents (st_db s))"
  shows "st_clock s \<le> st_clock s' \<and> (\<forall>k. contents (st_db s') k = contents (st_db s) k \<or>
    contents (st_db s') k = None \<and>
      (\<exists>b v j. contents (st_db s) k = Some b \<and> decode_opt b = Some v \<and>
        st_clock s \<le> j \<and> j < st_clock s' \<and> expired_at (reading clk j) v))"
proof -
  let ?offered = "if st_ttl_filter s then db_compaction R (st_db s) else []"
  obtain dropped c i where r: "run_filter clk ?offered
      (st_ttl_compaction_removed s, st_clock s) = (dropped, c, i)" by (metis prod.exhaust)
  note rf = run_filter_dropped [OF r]
  have s': "st_db s' = db_drop R (st_db s) dropped" "st_clock s' = i"
    using assms(1) r by (simp_all add: rocks_compact_def)
  have sub: "set dropped \<subseteq> {(k, v). \<exists>l. (l, k, v) \<in> set (db_compaction R (st_db s))}"
    using rf by (auto split: if_splits)
  have dead: "\<exists>v j. decode_opt b = Some v \<and> st_clock s \<le> j \<and> j < i \<and> expired_at (reading clk j) v"
    if dr: "(k, b) \<in> set dropped" and cur: "contents (st_db s) k = Some b" for k b
  proof -
    obtain v where "decode_opt b = Some v"
      using entries_wf_decode [OF wf cur]
      by (cases "decode_opt b") (auto simp: decode_opt_def split: sum.splits)
    then show ?thesis using rf dr by blast
  qed
  show ?thesis
    using drop_result [OF sub] dead rf unfolding s' by blast
qed

lemma compact_view:
  assumes "s' = rocks_compact R clk s" and wf: "entries_wf (contents (st_db s))"
    and t: "\<forall>j. st_clock s \<le> j \<and> j < st_clock s' \<longrightarrow> reading clk j \<le> t"
  shows "live_view t (contents (st_db s')) = live_view t (contents (st_db s))"
proof
  fix k
  show "live_view t (contents (st_db s')) k = live_view t (contents (st_db s)) k"
    using compact_drops [OF assms(1,2)] t expired_at_mono
    by (auto simp: live_view_def split: option.splits) (metis option.distinct(1) option.inject)+
qed

lemma compact_wf:
  "entries_wf (contents (st_db s)) \<Longrightarrow> entries_wf (contents (st_db (rocks_compact R clk s)))"
  using compact_drops [OF refl, of s] unfolding entries_wf_def by (metis option.distinct(1))

end

interpretation mem_storage: rocks_storage mem_rocksdb fst clk for clk
  by unfold_locales

section \<open>Properties\<close>

context rocks_storage
begin

lemmas set_get = store.set_then_get
lemmas set_get_other = store.set_then_get_other
lemmas delete_get = store.delete_then_get

end

lemma rocks_storage_of: "rocksdb R contents \<Longrightarrow> rocks_storage R contents"
  by (rule rocks_storage.intro)

text \<open>A storage on a database that holds one entry, for the closed statements.\<close>

definition one_entry :: "bytes \<Rightarrow> stored_value \<Rightarrow> mem_db storage" where
  "one_entry k v =
     \<lparr>st_db = ([k \<mapsto> encode v], [k], []), st_write_opts = \<lparr>wo_disable_wal = True\<rparr>, st_ttl_filter = True,
      st_expired_keys_removed = 0, st_ttl_compaction_removed = 0, st_clock = 0\<rparr>"

lemmas one_entry_run = run_simps one_entry_def mem_rocksdb_def next_fault_def

text \<open>
  C11: What was stored is what is found: a successful \<open>set\<close> followed by a successful \<open>get\<close> of the
  same key returns the very value, flags, deadline and data, as long as the clock has not reached the
  deadline, and nothing from then on.
\<close>

theorem storage_get_after_set:
  assumes "rocksdb R contents" and "rocks_set R k v s = (Inr u, s1)"
    and "rocks_get R clk k s1 = (Inr r, s2)"
  shows "r = (if expired_at (reading clk (st_clock s1)) v then None else Some v)"
  using rocks_storage.set_get [OF rocks_storage_of [OF assms(1)] assms(2,3)] .

theorem storage_get_after_set_witness:
  "fst (rocks_get mem_rocksdb (\<lambda>i. 0) [107]
     (snd (rocks_set mem_rocksdb [107] \<lparr>sv_expire_at = 0, sv_flags = 9, sv_data = [1]\<rparr>
       (one_entry [107] \<lparr>sv_expire_at = 5, sv_flags = 0, sv_data = []\<rparr>)))) =
   Inr (if expired_at (reading (\<lambda>i. 0) 0) \<lparr>sv_expire_at = 0, sv_flags = 9, sv_data = [1]\<rparr> then None
        else Some \<lparr>sv_expire_at = 0, sv_flags = 9, sv_data = [1]\<rparr>)"
proof -
  let ?v = "\<lparr>sv_expire_at = 0, sv_flags = 9, sv_data = [1]\<rparr>"
  let ?s = "one_entry [107] \<lparr>sv_expire_at = 5, sv_flags = 0, sv_data = []\<rparr>"
  let ?s1 = "snd (rocks_set mem_rocksdb [107] ?v ?s)"
  have st: "rocks_set mem_rocksdb [107] ?v ?s = (Inr (), ?s1)" by (simp add: one_entry_run)
  have g: "rocks_get mem_rocksdb (\<lambda>i. 0) [107] ?s1 = (Inr (Some ?v), ?s1)"
    by (simp add: one_entry_run)
  have "st_clock ?s1 = 0" by (simp add: one_entry_run)
  with storage_get_after_set [OF mem.rocksdb_axioms st g] g show ?thesis by (simp only: fst_conv)
qed

text \<open>
  Operations on one key leave the others alone: after a successful \<open>set\<close> of \<open>k\<close>, a \<open>get\<close> of
  another key returns what that key showed before.
\<close>

theorem storage_set_frame:
  assumes "rocksdb R contents" and "rocks_set R k v s = (Inr u, s1)"
    and "rocks_get R clk k' s1 = (Inr r, s2)" and "k' \<noteq> k"
  shows "r = live_view (reading clk (st_clock s1)) (contents (st_db s)) k'"
  using rocks_storage.set_get_other [OF rocks_storage_of [OF assms(1)] assms(2-4)] .

theorem storage_set_frame_witness:
  "Some \<lparr>sv_expire_at = 0, sv_flags = 3, sv_data = []\<rparr> =
     live_view (reading (\<lambda>i. 0) 0) [[107] \<mapsto> encode \<lparr>sv_expire_at = 0, sv_flags = 3, sv_data = []\<rparr>] [107]"
proof -
  let ?w = "\<lparr>sv_expire_at = 0, sv_flags = 3, sv_data = []\<rparr>"
  let ?s1 = "snd (rocks_set mem_rocksdb [108] ?w (one_entry [107] ?w))"
  have st: "rocks_set mem_rocksdb [108] ?w (one_entry [107] ?w) = (Inr (), ?s1)"
    by (simp add: one_entry_run)
  have g: "rocks_get mem_rocksdb (\<lambda>i. 0) [107] ?s1 = (Inr (Some ?w), ?s1)"
    by (simp add: one_entry_run)
  have c: "st_clock ?s1 = 0" "fst (st_db (one_entry [107] ?w)) = [[107] \<mapsto> encode ?w]"
    by (simp_all add: one_entry_run)
  from storage_set_frame [OF mem.rocksdb_axioms st g] show ?thesis by (simp only: c) simp
qed

text \<open>
  A deleted key is gone: a successful \<open>delete\<close> reports whether the database held an entry for the
  key, and a later \<open>get\<close> finds nothing.
\<close>

theorem storage_delete_then_get:
  assumes "rocksdb R contents" and "rocks_delete R k s = (Inr b, s1)"
  shows "b = (contents (st_db s) k \<noteq> None) \<and>
    (\<forall>r s2. rocks_get R clk k s1 = (Inr r, s2) \<longrightarrow> r = None)"
  using rocks_storage.rocks_delete_ok [OF rocks_storage_of [OF assms(1)] assms(2)]
    rocks_storage.delete_get [OF rocks_storage_of [OF assms(1)] assms(2)] by blast

theorem storage_delete_then_get_witness:
  "True = ([[107] \<mapsto> encode \<lparr>sv_expire_at = 0, sv_flags = 3, sv_data = []\<rparr>] [107] \<noteq> None) \<and>
   fst (rocks_get mem_rocksdb (\<lambda>i. 0) [107]
     (snd (rocks_delete mem_rocksdb [107]
       (one_entry [107] \<lparr>sv_expire_at = 0, sv_flags = 3, sv_data = []\<rparr>)))) = Inr None"
proof -
  let ?s = "one_entry [107] \<lparr>sv_expire_at = 0, sv_flags = 3, sv_data = []\<rparr>"
  let ?s1 = "snd (rocks_delete mem_rocksdb [107] ?s)"
  have d: "rocks_delete mem_rocksdb [107] ?s = (Inr True, ?s1)" by (simp add: one_entry_run)
  obtain r s2 where g: "rocks_get mem_rocksdb (\<lambda>i. 0) [107] ?s1 = (Inr r, s2)"
    by (simp add: one_entry_run)
  from storage_delete_then_get [OF mem.rocksdb_axioms d, of "\<lambda>i. 0"] g
  have "r = None" and "True = (fst (st_db ?s) [107] \<noteq> None)" by blast+
  then show ?thesis using g by (simp add: one_entry_def)
qed

text \<open>
  Lazy expiration is invisible: looking a key up, whether it is found, missing, expired and
  removed on the way, or the lookup fails, never changes what any key shows from that time on.
\<close>

theorem storage_get_invisible:
  assumes "rocksdb R contents" and "rocks_get R clk key s = (res, s')"
    and "reading clk (st_clock s) \<le> t"
  shows "live_view t (contents (st_db s')) = live_view t (contents (st_db s))"
  using rocks_storage.rocks_get_view [OF rocks_storage_of [OF assms(1)] assms(2,3)] .

theorem storage_get_invisible_witness:
  "live_view 70 (fst (st_db (snd (rocks_get mem_rocksdb (\<lambda>i. 60000000000) [107]
      (one_entry [107] \<lparr>sv_expire_at = 60, sv_flags = 0, sv_data = [1]\<rparr>))))) =
   live_view 70 [[107] \<mapsto> encode \<lparr>sv_expire_at = 60, sv_flags = 0, sv_data = [1]\<rparr>]"
  using storage_get_invisible [OF mem.rocksdb_axioms, of "\<lambda>i. 60000000000" "[107]"
      "one_entry [107] \<lparr>sv_expire_at = 60, sv_flags = 0, sv_data = [1]\<rparr>"
      "fst (rocks_get mem_rocksdb (\<lambda>i. 60000000000) [107]
        (one_entry [107] \<lparr>sv_expire_at = 60, sv_flags = 0, sv_data = [1]\<rparr>))"
      "snd (rocks_get mem_rocksdb (\<lambda>i. 60000000000) [107]
        (one_entry [107] \<lparr>sv_expire_at = 60, sv_flags = 0, sv_data = [1]\<rparr>))" 70]
  by (simp add: one_entry_run)

text \<open>
  C16: A batched \<open>get\<close> is the single \<open>get\<close>s in order: one result per requested key, in the order of
  the request and with duplicates kept, each the value the key showed at one of the times the call
  read the clock; and the call, lazy deletions included, does not change what any key shows from
  those times on.
\<close>

theorem storage_get_multi_refines:
  assumes "rocksdb R contents" and "rocks_get_multi R clk keys s = (Inr rs, s')"
  shows "map fst rs = keys \<and>
    (\<forall>j < length keys. \<exists>i. st_clock s \<le> i \<and> i \<le> st_clock s' \<and>
      snd (rs ! j) = live_view (reading clk i) (contents (st_db s)) (keys ! j)) \<and>
    (\<forall>t. (\<forall>i. st_clock s \<le> i \<and> i \<le> st_clock s' \<longrightarrow> reading clk i \<le> t) \<longrightarrow>
      live_view t (contents (st_db s')) = live_view t (contents (st_db s)))"
  using rocks_storage.rocks_get_multi_values [OF rocks_storage_of [OF assms(1)] assms(2)]
    rocks_storage.rocks_get_multi_view [OF rocks_storage_of [OF assms(1)] assms(2)]
  by (simp add: read_within_def)

theorem storage_get_multi_refines_witness:
  "map fst [([107], None), ([108], None), ([107], None)] = [[107], [108], [107 :: u8]] \<and>
   live_view 70 (fst (st_db (snd (rocks_get_multi mem_rocksdb (\<lambda>i. 60000000000) [[107], [108], [107]]
      (one_entry [107] \<lparr>sv_expire_at = 60, sv_flags = 0, sv_data = [1]\<rparr>))))) =
   live_view 70 [[107] \<mapsto> encode \<lparr>sv_expire_at = 60, sv_flags = 0, sv_data = [1]\<rparr>]"
proof -
  let ?s = "one_entry [107] \<lparr>sv_expire_at = 60, sv_flags = 0, sv_data = [1]\<rparr>"
  let ?m = "rocks_get_multi mem_rocksdb (\<lambda>i. 60000000000) [[107], [108], [107]] ?s"
  have m: "?m = (Inr [([107], None), ([108], None), ([107], None)], snd ?m)"
    by (simp add: one_entry_run)
  have "\<forall>i. reading (\<lambda>i. 60000000000) i \<le> 70" by (simp add: run_simps)
  with storage_get_multi_refines [OF mem.rocksdb_axioms m] show ?thesis
    by (simp only: one_entry_def storage.simps fst_conv) simp
qed

text \<open>
  C33: The compaction filter and the lookup agree: the filter removes an entry exactly when a lookup
  that read the clock at the same moment would have treated it as expired, it counts exactly its
  removals, and it never touches bytes too short to carry a deadline.
\<close>

theorem filter_agrees_with_lookup:
  "(fst (ttl_compaction_filter clk level key (encode v) (c, i)) = Remove \<longleftrightarrow> fst (is_expired clk v i)) \<and>
   fst (snd (ttl_compaction_filter clk level key val (c, i))) =
     (if fst (ttl_compaction_filter clk level key val (c, i)) = Remove then c + 1 else c) \<and>
   (length val < 8 \<longrightarrow> ttl_compaction_filter clk level key val (c, i) = (Keep, c, i))"
proof -
  obtain d c' i' where f: "ttl_compaction_filter clk level key (encode v) (c, i) = (d, c', i')"
    by (metis prod.exhaust)
  obtain d2 c2 i2 where f2: "ttl_compaction_filter clk level key val (c, i) = (d2, c2, i2)"
    by (metis prod.exhaust)
  from filter_remove_iff(1) [OF f decode_opt_encode] filter_counts [OF f2] f f2 show ?thesis
    by (auto simp: is_expired_fst ttl_compaction_filter_def)
qed

theorem filter_agrees_with_lookup_witness:
  "fst (ttl_compaction_filter (\<lambda>i. 60000000000) 0 [107]
      (encode \<lparr>sv_expire_at = 60, sv_flags = 0, sv_data = []\<rparr>) (0, 0)) = Remove \<and>
   ttl_compaction_filter (\<lambda>i. 60000000000) 0 [107] [1, 0] (4, 0) = (Keep, 4, 0)"
  using filter_agrees_with_lookup [of "\<lambda>i. 60000000000" 0 "[107]"
      "\<lparr>sv_expire_at = 60, sv_flags = 0, sv_data = []\<rparr>" 0 0 "[]"]
    filter_agrees_with_lookup [of "\<lambda>i. 60000000000" 0 "[107]"
      "\<lparr>sv_expire_at = 60, sv_flags = 0, sv_data = []\<rparr>" 4 0 "[1, 0]"]
  by (simp add: is_expired_def current_timestamp_def secs_since_epoch_def)

text \<open>
  C17: Compaction is invisible: when every entry carries a full header, a compaction with the TTL
  filter changes nothing that any key shows at a time no earlier than the clock readings it took,
  and afterwards every entry still carries a full header.
\<close>

theorem compaction_invisible:
  assumes "rocksdb R contents" and "s' = rocks_compact R clk s" and "entries_wf (contents (st_db s))"
    and "\<forall>j. st_clock s \<le> j \<and> j < st_clock s' \<longrightarrow> reading clk j \<le> t"
  shows "live_view t (contents (st_db s')) = live_view t (contents (st_db s)) \<and>
    entries_wf (contents (st_db s'))"
  using rocks_storage.compact_view [OF rocks_storage_of [OF assms(1)] assms(2-4)]
    rocks_storage.compact_wf [OF rocks_storage_of [OF assms(1)] assms(3), of clk] assms(2) by simp

theorem compaction_invisible_witness:
  "live_view 70 (fst (st_db (rocks_compact mem_rocksdb (\<lambda>i. 60000000000)
      (one_entry [107] \<lparr>sv_expire_at = 60, sv_flags = 0, sv_data = [1]\<rparr>)))) =
   live_view 70 [[107] \<mapsto> encode \<lparr>sv_expire_at = 60, sv_flags = 0, sv_data = [1]\<rparr>] \<and>
   entries_wf (fst (st_db (rocks_compact mem_rocksdb (\<lambda>i. 60000000000)
      (one_entry [107] \<lparr>sv_expire_at = 60, sv_flags = 0, sv_data = [1]\<rparr>))))"
proof -
  let ?s = "one_entry [107] \<lparr>sv_expire_at = 60, sv_flags = 0, sv_data = [1]\<rparr>"
  have c: "fst (st_db ?s) = [[107] \<mapsto> encode \<lparr>sv_expire_at = 60, sv_flags = 0, sv_data = [1]\<rparr>]"
    by (simp add: one_entry_def)
  have wf: "entries_wf (fst (st_db ?s))" by (simp add: c entries_wf_def encode_length)
  have t: "\<forall>j. P j \<longrightarrow> reading (\<lambda>i. 60000000000) j \<le> 70" for P by (simp add: run_simps)
  from compaction_invisible [OF mem.rocksdb_axioms refl wf t] show ?thesis unfolding c .
qed

text \<open>
  The headers hold: the entries of the database keep their complete headers through every
  storage operation, successful or failed, and while they do, the only error a lookup can report is
  one of the database itself, never a decoding error.
\<close>

theorem headers_invariant:
  assumes "rocksdb R contents" and "entries_wf (contents (st_db s))"
  shows "entries_wf (contents (st_db (snd (rocks_get R clk k s)))) \<and>
    entries_wf (contents (st_db (snd (rocks_get_multi R clk ks s)))) \<and>
    entries_wf (contents (st_db (snd (rocks_set R k v s)))) \<and>
    entries_wf (contents (st_db (snd (rocks_delete R k s)))) \<and>
    entries_wf (contents (st_db (rocks_compact R clk s))) \<and>
    (fst (rocks_get R clk k s) = Inl e \<longrightarrow> (\<exists>x. e = RocksDb x)) \<and>
    (fst (rocks_get_multi R clk ks s) = Inl e \<longrightarrow> (\<exists>x. e = RocksDb x))"
proof -
  note rs = rocks_storage_of [OF assms(1)]
  note pair = prod.collapse [symmetric]
  have "fst (rocks_get_multi R clk ks s) = Inl e \<longrightarrow> (\<exists>x. e = RocksDb x)"
    using rocks_storage.rocks_get_multi_cases [OF rs pair, of clk ks s] assms(2) by auto
  moreover have "fst (rocks_get R clk k s) = Inl e \<longrightarrow> (\<exists>x. e = RocksDb x)"
    using rocks_storage.rocks_get_no_decode_error [OF rs _ assms(2), of clk k e] by (metis prod.collapse)
  ultimately show ?thesis
    using rocks_storage.rocks_get_wf [OF rs pair assms(2)]
      rocks_storage.rocks_get_multi_wf [OF rs pair assms(2)]
      rocks_storage.rocks_set_wf [OF rs pair assms(2)]
      rocks_storage.rocks_delete_wf [OF rs pair assms(2)]
      rocks_storage.compact_wf [OF rs assms(2)] by blast
qed

theorem headers_invariant_witness:
  "entries_wf (fst (st_db (snd (rocks_set mem_rocksdb [108] \<lparr>sv_expire_at = 0, sv_flags = 0, sv_data = []\<rparr>
     (one_entry [107] \<lparr>sv_expire_at = 60, sv_flags = 0, sv_data = [1]\<rparr>)))))"
proof -
  have wf: "entries_wf (fst (st_db (one_entry [107] \<lparr>sv_expire_at = 60, sv_flags = 0, sv_data = [1]\<rparr>)))"
    by (simp add: one_entry_def entries_wf_def encode_length)
  from headers_invariant [OF mem.rocksdb_axioms wf] show ?thesis by blast
qed

end
