(* ===== verification/Cache.thy ===== *)
theory Cache
  imports Response Rocks
begin

text \<open>
  What a client may rely on: an abstract cache, one step per command.  The state maps keys to stored
  values, the expired ones among them included; a step may read the clock several times, and \<open>T\<close> is
  the set of the times it read.  The handlers of \<open>Handler\<close> refine this relation.
\<close>

section \<open>The steps\<close>

type_synonym cache = "bytes \<Rightarrow> stored_value option"

definition stored_map :: "(bytes \<Rightarrow> bytes option) \<Rightarrow> cache" where
  "stored_map m k = Option.bind (m k) decode_opt"

text \<open>What a lookup at time \<open>t\<close> shows of the value stored under a key.\<close>

definition visible :: "u64 \<Rightarrow> cache \<Rightarrow> cache" where
  "visible t c k = (case c k of None \<Rightarrow> None | Some v \<Rightarrow> if expired_at t v then None else Some v)"

fun found_items :: "cache \<Rightarrow> u64 list \<Rightarrow> bytes list \<Rightarrow> (bytes \<times> u32 \<times> bytes) list" where
  "found_items c (t # ts) (k # ks) =
     (case visible t c k of
        None \<Rightarrow> found_items c ts ks
      | Some v \<Rightarrow> (k, sv_flags v, sv_data v) # found_items c ts ks)"
| "found_items c _ _ = []"

text \<open>Lookups may forget entries, but only ones that have expired.\<close>

definition forgets :: "u64 set \<Rightarrow> cache \<Rightarrow> cache \<Rightarrow> bool" where
  "forgets T c c' \<longleftrightarrow>
     (\<forall>k. c' k = c k \<or> c' k = None \<and> (\<exists>v t. c k = Some v \<and> t \<in> T \<and> expired_at t v))"

text \<open>The deadline of a value stored at time \<open>t\<close>: never, after \<open>exptime\<close> seconds, or at \<open>exptime\<close>.\<close>

definition deadline :: "u64 \<Rightarrow> u64 \<Rightarrow> u64" where
  "deadline t exptime =
     (if exptime = 0 then 0
      else if unat exptime \<le> 30 * 24 * 60 * 60 then of_nat (min (2 ^ 64 - 1) (unat t + unat exptime))
      else exptime)"

definition server_error_line :: "str \<Rightarrow> bytes" where
  "server_error_line msg = bs ''SERVER_ERROR '' @ msg @ crlf"

inductive cache_step :: "u64 set \<Rightarrow> command \<Rightarrow> cache \<Rightarrow> bytes \<Rightarrow> cache \<Rightarrow> bool" for T where
  step_get:
    "length ts = length keys \<Longrightarrow> set ts \<subseteq> T \<Longrightarrow> forgets T c c' \<Longrightarrow>
       cache_step T (Get keys) c (reply_text (found_items c ts keys)) c'"
| step_get_error: "cache_step T (Get keys) c (server_error_line msg) c"
| step_set:
    "t \<in> T \<Longrightarrow> v = with_expire_at flags (deadline t exptime) data \<Longrightarrow>
       cache_step T (Set key flags exptime data noreply) c (bs ''STORED'' @ crlf) (c(key \<mapsto> v))"
| step_set_error:
    "t \<in> T \<Longrightarrow> v = with_expire_at flags (deadline t exptime) data \<Longrightarrow> c' \<in> {c, c(key \<mapsto> v)} \<Longrightarrow>
       cache_step T (Set key flags exptime data noreply) c (server_error_line msg) c'"
| step_delete:
    "cache_step T (Delete key noreply) c
       (if c key = None then bs ''NOT_FOUND'' @ crlf else bs ''DELETED'' @ crlf) (c(key := None))"
| step_delete_error:
    "c' \<in> {c, c(key := None)} \<Longrightarrow>
       cache_step T (Delete key noreply) c (server_error_line msg) c'"
| step_version: "cache_step T Version c (bs ''VERSION petracache 0.1.0'' @ crlf) c"
| step_quit: "cache_step T Quit c [] c"

inductive_cases cache_get: "cache_step T (Get keys) c reply c'"
inductive_cases cache_set: "cache_step T (Set key flags exptime data noreply) c reply c'"
inductive_cases cache_delete: "cache_step T (Delete key noreply) c reply c'"

section \<open>Facts about the abstract cache\<close>

lemma stored_map_live_view: "live_view t m = visible t (stored_map m)"
  by (auto simp: live_view_def visible_def stored_map_def fun_eq_iff split: option.split)

lemma stored_map_upd: "stored_map (m(k \<mapsto> encode v)) = (stored_map m)(k \<mapsto> v)"
  by (auto simp: stored_map_def fun_eq_iff)

lemma stored_map_del: "stored_map (m(k := None)) = (stored_map m)(k := None)"
  by (auto simp: stored_map_def fun_eq_iff)

lemma stored_map_None: "entries_wf m \<Longrightarrow> stored_map m k = None \<longleftrightarrow> m k = None"
  using entries_wf_decode [of m k]
  by (cases "m k") (auto simp: stored_map_def decode_opt_def split: sum.splits)

lemma forgets_visible:
  assumes "forgets T c c'" and "\<forall>t \<in> T. t \<le> u"
  shows "visible u c' = visible u c"
proof
  fix k
  from assms(1) consider "c' k = c k" | v t where "c' k = None" "c k = Some v" "t \<in> T" "expired_at t v"
    unfolding forgets_def by blast
  then show "visible u c' k = visible u c k"
    using assms(2) by cases (auto simp: visible_def dest: expired_at_mono)
qed

lemma deadline_saturating:
  "deadline t exptime =
     (if exptime = 0 then 0
      else if exptime \<le> MAX_RELATIVE_TTL then saturating_add t exptime else exptime)"
proof -
  have "of_nat (min (2 ^ 64 - 1) (unat t + unat exptime)) = saturating_add t exptime"
    using arg_cong [OF unat_saturating_add [of t exptime], of "of_nat :: nat \<Rightarrow> u64"] by simp
  then show ?thesis
    by (simp add: deadline_def MAX_RELATIVE_TTL_def word_le_nat_alt)
qed

lemma value_new_deadline:
  "value_new clk flags exptime data i = (v, i') \<Longrightarrow>
     v = with_expire_at flags (deadline (reading clk i) exptime) data \<and> i \<le> i'"
  by (auto simp: value_new_def calculate_expire_at_def deadline_saturating with_expire_at_def
      current_timestamp_def Let_def split: if_splits)

text \<open>The times the clock showed while a call ran.\<close>

definition times_read :: "clock \<Rightarrow> nat \<Rightarrow> nat \<Rightarrow> u64 set" where
  "times_read clk i i' = {reading clk j |j. i \<le> j \<and> j \<le> i'}"

lemma times_read_first: "i \<le> i' \<Longrightarrow> reading clk i \<in> times_read clk i i'"
  by (auto simp: times_read_def)

lemma read_within_times: "read_within clk i i' P \<longleftrightarrow> (\<exists>t \<in> times_read clk i i'. P t)"
  by (auto simp: read_within_def times_read_def)

text \<open>
  A sequence of commands: the \<open>i\<close>-th to \<open>i'\<close>-th readings of the clock are spread over the steps in
  their order.
\<close>

inductive cache_trace ::
    "clock \<Rightarrow> nat \<Rightarrow> command list \<Rightarrow> cache \<Rightarrow> bytes list \<Rightarrow> cache \<Rightarrow> nat \<Rightarrow> bool" for clk where
  trace_Nil: "cache_trace clk i [] c [] c i"
| trace_Cons:
    "i \<le> h \<Longrightarrow> cache_step (times_read clk i h) cmd c r c1 \<Longrightarrow> cache_trace clk h cmds c1 rs c' i' \<Longrightarrow>
       cache_trace clk i (cmd # cmds) c (r # rs) c' i'"

inductive_cases trace_ConsE: "cache_trace clk i (cmd # cmds) c rs c' i'"
inductive_cases trace_NilE: "cache_trace clk i [] c rs c' i'"

lemma trace_append:
  "cache_trace clk i xs c rs c1 h \<Longrightarrow> cache_trace clk h ys c1 rs' c2 i' \<Longrightarrow>
     cache_trace clk i (xs @ ys) c (rs @ rs') c2 i'"
  by (induction rule: cache_trace.induct) (auto intro: trace_Cons)

lemma trace_length: "cache_trace clk i cmds c rs c' i' \<Longrightarrow> length rs = length cmds"
  by (induction rule: cache_trace.induct) auto

text \<open>What the client receives: the replies of the commands that did not ask for silence.\<close>

definition sent_replies :: "command list \<Rightarrow> bytes list \<Rightarrow> bytes" where
  "sent_replies cmds rs = concat (map2 (\<lambda>cmd r. if is_noreply cmd then [] else r) cmds rs)"

lemma sent_replies_simps [simp]:
  "sent_replies [] rs = []"
  "sent_replies (cmd # cmds) (r # rs) = (if is_noreply cmd then [] else r) @ sent_replies cmds rs"
  by (simp_all add: sent_replies_def)

lemma sent_replies_append:
  "length rs = length xs \<Longrightarrow> sent_replies (xs @ ys) (rs @ rs') = sent_replies xs rs @ sent_replies ys rs'"
  by (simp add: sent_replies_def)

end
