(* ===== verification/Config.thy ===== *)
theory Config
  imports Errors
begin

text \<open>
  The configuration of \<open>src/config.rs\<close>.  The environment is the function \<open>env\<close> from variable names
  to the bytes of their values; reading a file and the TOML parser of the \<open>toml\<close> crate are arguments
  of \<open>from_file\<close>, with the text of their errors.
\<close>

type_synonym i32 = "32 word"

record server_config =
  sc_listen_addr :: str
  sc_max_connections :: usize
  sc_read_buffer_size :: usize
  sc_write_buffer_size :: usize
  sc_worker_threads :: usize
  sc_connection_timeout_secs :: u64

record storage_config =
  cf_db_path :: str
  cf_block_cache_size :: usize
  cf_write_buffer_size :: usize
  cf_max_write_buffer_number :: i32
  cf_target_file_size_base :: u64
  cf_max_background_jobs :: i32
  cf_enable_compression :: bool
  cf_enable_ttl_compaction :: bool
  cf_rocksdb_log_level :: str
  cf_rocksdb_max_log_file_size :: usize
  cf_rocksdb_keep_log_file_num :: usize

record metrics_config =
  mt_enabled :: bool
  mt_listen_addr :: str

record config =
  cfg_server :: server_config
  cfg_storage :: storage_config
  cfg_metrics :: metrics_config

definition server_config_default :: server_config where
  "server_config_default =
     \<lparr>sc_listen_addr = bs ''127.0.0.1:11211'', sc_max_connections = 10000,
      sc_read_buffer_size = 8192, sc_write_buffer_size = 8192, sc_worker_threads = 0,
      sc_connection_timeout_secs = 0\<rparr>"

definition storage_config_default :: storage_config where
  "storage_config_default =
     \<lparr>cf_db_path = bs ''./data/rocksdb'', cf_block_cache_size = 1024 * 1024 * 1024,
      cf_write_buffer_size = 64 * 1024 * 1024, cf_max_write_buffer_number = 3,
      cf_target_file_size_base = 64 * 1024 * 1024, cf_max_background_jobs = 4,
      cf_enable_compression = False, cf_enable_ttl_compaction = True,
      cf_rocksdb_log_level = bs ''error'', cf_rocksdb_max_log_file_size = 10 * 1024 * 1024,
      cf_rocksdb_keep_log_file_num = 5\<rparr>"

definition metrics_config_default :: metrics_config where
  "metrics_config_default = \<lparr>mt_enabled = True, mt_listen_addr = bs ''127.0.0.1:9090''\<rparr>"

definition config_default :: config where
  "config_default =
     \<lparr>cfg_server = server_config_default, cfg_storage = storage_config_default,
      cfg_metrics = metrics_config_default\<rparr>"

text \<open>\<open>std::env::var(name).ok()\<close>: present and valid UTF-8.\<close>

definition env_var :: "(str \<Rightarrow> bytes option) \<Rightarrow> str \<Rightarrow> str option" where
  "env_var env name = Option.bind (env name) from_utf8"

definition from_file ::
    "(str \<Rightarrow> 'i + str) \<Rightarrow> ('i \<Rightarrow> str) \<Rightarrow> (str \<Rightarrow> 't + config) \<Rightarrow> ('t \<Rightarrow> str) \<Rightarrow> str \<Rightarrow>
      ('e, 'i) petracache_error + config" where
  "from_file read_to_string io_msg toml_from_str toml_msg path =
     (case read_to_string path of
        Inl e \<Rightarrow> Inl (Config (bs ''Failed to read config file: '' @ io_msg e))
      | Inr contents \<Rightarrow>
          (case toml_from_str contents of
             Inl e \<Rightarrow> Inl (Config (bs ''Failed to parse config: '' @ toml_msg e))
           | Inr cfg \<Rightarrow> Inr cfg))"

definition from_env :: "(str \<Rightarrow> bytes option) \<Rightarrow> config" where
  "from_env env =
     (let c = config_default;
          c = (case env_var env (bs ''PETRACACHE_LISTEN_ADDR'') of
                 None \<Rightarrow> c
               | Some addr \<Rightarrow> c\<lparr>cfg_server := (cfg_server c)\<lparr>sc_listen_addr := addr\<rparr>\<rparr>);
          c = (case env_var env (bs ''PETRACACHE_MAX_CONNECTIONS'') of
                 None \<Rightarrow> c
               | Some max_conn \<Rightarrow>
                   (case from_str_uint max_conn of
                      None \<Rightarrow> c
                    | Some n \<Rightarrow> c\<lparr>cfg_server := (cfg_server c)\<lparr>sc_max_connections := n\<rparr>\<rparr>));
          c = (case env_var env (bs ''PETRACACHE_DB_PATH'') of
                 None \<Rightarrow> c
               | Some path \<Rightarrow> c\<lparr>cfg_storage := (cfg_storage c)\<lparr>cf_db_path := path\<rparr>\<rparr>);
          c = (case env_var env (bs ''PETRACACHE_METRICS_ADDR'') of
                 None \<Rightarrow> c
               | Some addr \<Rightarrow> c\<lparr>cfg_metrics := (cfg_metrics c)\<lparr>mt_listen_addr := addr\<rparr>\<rparr>)
      in (case env_var env (bs ''PETRACACHE_METRICS_ENABLED'') of
            None \<Rightarrow> c
          | Some enabled \<Rightarrow>
              c\<lparr>cfg_metrics := (cfg_metrics c)\<lparr>mt_enabled :=
                (str_to_lowercase enabled = bs ''true'' \<or> enabled = bs ''1'')\<rparr>\<rparr>))"

lemmas config_defs = server_config_default_def storage_config_default_def
  metrics_config_default_def config_default_def env_var_def from_file_def from_env_def

lemmas [run_simps] = config_defs

section \<open>Properties\<close>

text \<open>
  The environment decides exactly five settings.  Each documented variable, when present and
  valid, sets its own field: a maximum of connections that is not a number is ignored, and metrics
  are enabled by \<open>true\<close> in any case or by \<open>1\<close> and disabled by anything else.  Every other setting
  keeps its default.
\<close>

theorem from_env_exact:
  "from_env env =
     \<lparr>cfg_server = server_config_default
        \<lparr>sc_listen_addr := (case env_var env (bs ''PETRACACHE_LISTEN_ADDR'') of
            None \<Rightarrow> bs ''127.0.0.1:11211'' | Some a \<Rightarrow> a),
         sc_max_connections :=
           (case Option.bind (env_var env (bs ''PETRACACHE_MAX_CONNECTIONS'')) from_str_uint of
              None \<Rightarrow> 10000 | Some n \<Rightarrow> n)\<rparr>,
      cfg_storage = storage_config_default
        \<lparr>cf_db_path := (case env_var env (bs ''PETRACACHE_DB_PATH'') of
            None \<Rightarrow> bs ''./data/rocksdb'' | Some p \<Rightarrow> p)\<rparr>,
      cfg_metrics =
        \<lparr>mt_enabled = (case env_var env (bs ''PETRACACHE_METRICS_ENABLED'') of
            None \<Rightarrow> True | Some e \<Rightarrow> str_to_lowercase e = bs ''true'' \<or> e = bs ''1''),
         mt_listen_addr = (case env_var env (bs ''PETRACACHE_METRICS_ADDR'') of
            None \<Rightarrow> bs ''127.0.0.1:9090'' | Some a \<Rightarrow> a)\<rparr>\<rparr>"
proof -
  have server: "sc_listen_addr server_config_default = bs ''127.0.0.1:11211''"
    "sc_max_connections server_config_default = 10000"
    by (simp_all add: server_config_default_def)
  have path: "cf_db_path storage_config_default = bs ''./data/rocksdb''"
    by (simp add: storage_config_default_def)
  note keep = server [symmetric] path [symmetric]
  show ?thesis
    unfolding from_env_def Let_def config_default_def metrics_config_default_def keep
    by (cases "env_var env (bs ''PETRACACHE_LISTEN_ADDR'')";
        cases "Option.bind (env_var env (bs ''PETRACACHE_MAX_CONNECTIONS'')) (from_str_uint :: str \<Rightarrow> usize option)";
        cases "env_var env (bs ''PETRACACHE_MAX_CONNECTIONS'')";
        cases "env_var env (bs ''PETRACACHE_DB_PATH'')";
        cases "env_var env (bs ''PETRACACHE_METRICS_ADDR'')";
        cases "env_var env (bs ''PETRACACHE_METRICS_ENABLED'')";
        simp)
qed

text \<open>
  The variables the README lists for the five settings, with the values that ask for a given
  configuration.
\<close>

definition env_of :: "config \<Rightarrow> (str \<times> bytes) list" where
  "env_of c =
     [(bs ''PETRACACHE_LISTEN_ADDR'', sc_listen_addr (cfg_server c)),
      (bs ''PETRACACHE_MAX_CONNECTIONS'', to_decimal (unat (sc_max_connections (cfg_server c)))),
      (bs ''PETRACACHE_DB_PATH'', cf_db_path (cfg_storage c)),
      (bs ''PETRACACHE_METRICS_ADDR'', mt_listen_addr (cfg_metrics c)),
      (bs ''PETRACACHE_METRICS_ENABLED'', if mt_enabled (cfg_metrics c) then bs ''true'' else bs ''false'')]"

text \<open>A configuration that differs from the default in these settings only, and in texts.\<close>

definition env_config :: "config \<Rightarrow> bool" where
  "env_config c \<longleftrightarrow>
     utf8_valid (sc_listen_addr (cfg_server c)) \<and> utf8_valid (cf_db_path (cfg_storage c)) \<and>
     utf8_valid (mt_listen_addr (cfg_metrics c)) \<and>
     cfg_server c = server_config_default
       \<lparr>sc_listen_addr := sc_listen_addr (cfg_server c), sc_max_connections := sc_max_connections (cfg_server c)\<rparr> \<and>
     cfg_storage c = storage_config_default\<lparr>cf_db_path := cf_db_path (cfg_storage c)\<rparr>"

lemma to_decimal_valid: "utf8_valid (to_decimal n)"
  by (rule utf8_valid_ascii) (auto dest!: to_decimal_ascii is_digit_ascii)

lemma env_of_lookup:
  fixes c :: config and other :: "str \<Rightarrow> bytes option"
  defines "env \<equiv> other ++ map_of (env_of c)"
  shows "env (bs ''PETRACACHE_LISTEN_ADDR'') = Some (sc_listen_addr (cfg_server c))"
    and "env (bs ''PETRACACHE_MAX_CONNECTIONS'') = Some (to_decimal (unat (sc_max_connections (cfg_server c))))"
    and "env (bs ''PETRACACHE_DB_PATH'') = Some (cf_db_path (cfg_storage c))"
    and "env (bs ''PETRACACHE_METRICS_ADDR'') = Some (mt_listen_addr (cfg_metrics c))"
    and "env (bs ''PETRACACHE_METRICS_ENABLED'') =
      Some (if mt_enabled (cfg_metrics c) then bs ''true'' else bs ''false'')"
  by (simp_all add: env_def env_of_def bs_def map_add_def)

lemma bool_words:
  "utf8_valid (bs ''true'')" "utf8_valid (bs ''false'')"
  "str_to_lowercase (bs ''true'') = bs ''true''"
  "str_to_lowercase (bs ''false'') \<noteq> bs ''true''" "bs ''false'' \<noteq> bs ''1''"
  by (simp_all add: run_simps)

lemma env_var_invalid:
  "\<not> utf8_valid b \<Longrightarrow> env_var (env(v \<mapsto> b)) n = env_var (env(v := None)) n"
  by (simp add: env_var_def from_utf8_def)

text \<open>
  C38: The environment carries a configuration: whatever other variables are set, writing the listen
  address, the connection limit, the database path, the metrics address and the metrics switch of
  any configuration into the variables of the README and reading the environment gives that
  configuration back.  A value that is not UTF-8, and a connection limit that is not a number in
  range, count as not set.
\<close>

theorem env_roundtrip:
  "(env_config c \<longrightarrow> from_env (other ++ map_of (env_of c)) = c) \<and>
   (\<not> utf8_valid b \<longrightarrow> from_env (env(v \<mapsto> b)) = from_env (env(v := None))) \<and>
   ((from_str_uint b :: usize option) = None \<longrightarrow>
      from_env (env(bs ''PETRACACHE_MAX_CONNECTIONS'' \<mapsto> b)) = from_env (env(bs ''PETRACACHE_MAX_CONNECTIONS'' := None)))"
proof (intro conjI impI)
  assume c: "env_config c"
  then have valid: "from_utf8 (sc_listen_addr (cfg_server c)) = Some (sc_listen_addr (cfg_server c))"
    "from_utf8 (cf_db_path (cfg_storage c)) = Some (cf_db_path (cfg_storage c))"
    "from_utf8 (mt_listen_addr (cfg_metrics c)) = Some (mt_listen_addr (cfg_metrics c))"
    by (simp_all add: env_config_def from_utf8_def)
  have "from_env (other ++ map_of (env_of c)) =
    \<lparr>cfg_server = server_config_default
       \<lparr>sc_listen_addr := sc_listen_addr (cfg_server c), sc_max_connections := sc_max_connections (cfg_server c)\<rparr>,
     cfg_storage = storage_config_default\<lparr>cf_db_path := cf_db_path (cfg_storage c)\<rparr>,
     cfg_metrics = cfg_metrics c\<rparr>"
    unfolding from_env_exact env_var_def env_of_lookup
    by (simp add: valid bool_words to_decimal_valid from_utf8_def [of "to_decimal _"] from_utf8_def [of "bs _"]
        from_str_uint_to_decimal)
  with c show "from_env (other ++ map_of (env_of c)) = c" by (simp add: env_config_def)
next
  assume b: "\<not> utf8_valid b"
  show "from_env (env(v \<mapsto> b)) = from_env (env(v := None))"
    by (simp only: from_env_exact env_var_invalid [OF b])
next
  let ?n = "bs ''PETRACACHE_MAX_CONNECTIONS''"
  assume "(from_str_uint b :: usize option) = None"
  then have "Option.bind (env_var (env(?n \<mapsto> b)) ?n) from_str_uint =
      Option.bind (env_var (env(?n := None)) ?n) (from_str_uint :: str \<Rightarrow> usize option)"
    by (simp add: env_var_def from_utf8_def)
  moreover have "env_var (env(?n \<mapsto> b)) n = env_var (env(?n := None)) n" if "n \<noteq> ?n" for n
    using that by (simp add: env_var_def)
  ultimately show "from_env (env(?n \<mapsto> b)) = from_env (env(?n := None))"
    unfolding from_env_exact by (simp add: bs_def del: fun_upd_apply)
qed

theorem env_roundtrip_witness:
  "from_env (map_of (env_of (config_default
       \<lparr>cfg_metrics := \<lparr>mt_enabled = False, mt_listen_addr = bs ''[::]:80''\<rparr>\<rparr>))) =
     config_default\<lparr>cfg_metrics := \<lparr>mt_enabled = False, mt_listen_addr = bs ''[::]:80''\<rparr>\<rparr> \<and>
   from_env [bs ''X'' \<mapsto> [255]] = from_env Map.empty \<and>
   from_env [bs ''PETRACACHE_MAX_CONNECTIONS'' \<mapsto> bs ''many''] = from_env Map.empty"
proof -
  let ?c = "config_default\<lparr>cfg_metrics := \<lparr>mt_enabled = False, mt_listen_addr = bs ''[::]:80''\<rparr>\<rparr>"
  have "env_config ?c" by (simp add: env_config_def run_simps)
  moreover have "\<not> utf8_valid [255]" by (simp add: run_simps)
  moreover have "(from_str_uint (bs ''many'') :: usize option) = None" by (simp add: run_simps)
  ultimately show ?thesis
    using env_roundtrip [of ?c Map.empty "[255]" Map.empty "bs ''X''"]
      env_roundtrip [of ?c Map.empty "bs ''many''" Map.empty "bs ''X''"]
    by (simp add: fun_upd_idem)
qed

end
