(* ===== verification/Metrics.thy ===== *)
theory Metrics
  imports Rust_Std
begin

text \<open>
  The metrics of \<open>src/metrics.rs\<close>.  The counters and the gauge are objects of the \<open>prometheus\<close>
  crate; a field of the record \<open>metrics\<close> is what the program has asked of the object since it was
  created: the sum of the increments of a counter, and increments minus decrements of the gauge.
  The latency histogram is registered and never observed, so it has no field.  Creating and
  registering the objects, which the source does with \<open>unwrap\<close>, is modelled over the crate as a
  parameter, with its rules in the locale \<open>prometheus\<close>.
\<close>

section \<open>The values\<close>

record metrics =
  m_cmd_get :: nat
  m_cmd_set :: nat
  m_cmd_add :: nat
  m_cmd_replace :: nat
  m_cmd_delete :: nat
  m_cmd_incr :: nat
  m_cmd_decr :: nat
  m_cmd_touch :: nat
  m_cmd_flush :: nat
  m_get_hits :: nat
  m_get_misses :: nat
  m_active_connections :: int
  m_total_connections :: nat
  m_rejected_connections :: nat
  m_bytes_read :: nat
  m_bytes_written :: nat
  m_protocol_errors :: nat
  m_storage_errors :: nat

definition metrics_new :: metrics where
  "metrics_new =
     \<lparr>m_cmd_get = 0, m_cmd_set = 0, m_cmd_add = 0, m_cmd_replace = 0, m_cmd_delete = 0,
      m_cmd_incr = 0, m_cmd_decr = 0, m_cmd_touch = 0, m_cmd_flush = 0, m_get_hits = 0,
      m_get_misses = 0, m_active_connections = 0, m_total_connections = 0,
      m_rejected_connections = 0, m_bytes_read = 0, m_bytes_written = 0, m_protocol_errors = 0,
      m_storage_errors = 0\<rparr>"

lemmas [run_simps] = metrics_new_def

section \<open>Creating and registering the objects\<close>

text \<open>
  The calls made on the crate: the constructors, which check the name, the help text and the buckets
  of a histogram, and the registry.  Buckets are given in units of 100 microseconds.
\<close>

record ('c, 'reg, 'x) prometheus_crate =
  pr_int_counter :: "str \<Rightarrow> str \<Rightarrow> 'x + 'c"
  pr_int_gauge :: "str \<Rightarrow> str \<Rightarrow> 'x + 'c"
  pr_histogram :: "str \<Rightarrow> str \<Rightarrow> nat list \<Rightarrow> 'x + 'c"
  pr_registry_new :: 'reg
  pr_register :: "'reg \<Rightarrow> 'c \<Rightarrow> 'x + 'reg"

definition unwrap :: "'x + 'a \<Rightarrow> 'a outcome" where
  "unwrap r = (case r of Inl e \<Rightarrow> Panic | Inr a \<Rightarrow> Done a)"

fun register_all :: "('c, 'reg, 'x) prometheus_crate \<Rightarrow> 'c list \<Rightarrow> 'reg \<Rightarrow> 'reg outcome" where
  "register_all X [] registry = Done registry"
| "register_all X (c # cs) registry =
     (case unwrap (pr_register X registry c) of
        Panic \<Rightarrow> Panic
      | Done registry \<Rightarrow> register_all X cs registry)"

fun unwrap_all :: "('x + 'a) list \<Rightarrow> 'a list outcome" where
  "unwrap_all [] = Done []"
| "unwrap_all (r # rs) =
     (case unwrap r of
        Panic \<Rightarrow> Panic
      | Done a \<Rightarrow> (case unwrap_all rs of Panic \<Rightarrow> Panic | Done as \<Rightarrow> Done (a # as)))"

definition latency_buckets :: "nat list" where
  "latency_buckets = [1, 5, 10, 20, 50, 100, 250, 500, 1000, 2500, 5000, 10000]"

definition create_metrics :: "('c, 'reg, 'x) prometheus_crate \<Rightarrow> ('x + 'c) list" where
  "create_metrics X =
     [pr_int_counter X (bs ''petracache_cmd_get_total'') (bs ''Total GET commands''),
      pr_int_counter X (bs ''petracache_cmd_set_total'') (bs ''Total SET commands''),
      pr_int_counter X (bs ''petracache_cmd_add_total'') (bs ''Total ADD commands''),
      pr_int_counter X (bs ''petracache_cmd_replace_total'') (bs ''Total REPLACE commands''),
      pr_int_counter X (bs ''petracache_cmd_delete_total'') (bs ''Total DELETE commands''),
      pr_int_counter X (bs ''petracache_cmd_incr_total'') (bs ''Total INCR commands''),
      pr_int_counter X (bs ''petracache_cmd_decr_total'') (bs ''Total DECR commands''),
      pr_int_counter X (bs ''petracache_cmd_touch_total'') (bs ''Total TOUCH commands''),
      pr_int_counter X (bs ''petracache_cmd_flush_total'') (bs ''Total FLUSH_ALL commands''),
      pr_int_counter X (bs ''petracache_get_hits_total'') (bs ''Total GET hits''),
      pr_int_counter X (bs ''petracache_get_misses_total'') (bs ''Total GET misses''),
      pr_int_gauge X (bs ''petracache_active_connections'') (bs ''Current active connections''),
      pr_int_counter X (bs ''petracache_connections_total'') (bs ''Total connections accepted''),
      pr_int_counter X (bs ''petracache_rejected_connections_total'') (bs ''Total connections rejected''),
      pr_int_counter X (bs ''petracache_bytes_read_total'') (bs ''Total bytes read''),
      pr_int_counter X (bs ''petracache_bytes_written_total'') (bs ''Total bytes written''),
      pr_histogram X (bs ''petracache_cmd_latency_seconds'') (bs ''Command latency in seconds'')
        latency_buckets,
      pr_int_counter X (bs ''petracache_protocol_errors_total'') (bs ''Total protocol errors''),
      pr_int_counter X (bs ''petracache_storage_errors_total'') (bs ''Total storage errors'')]"

text \<open>\<open>Metrics::new\<close>: the registry and the objects, in the order of the source.\<close>

definition metrics_create :: "('c, 'reg, 'x) prometheus_crate \<Rightarrow> ('reg \<times> 'c list) outcome" where
  "metrics_create X =
     (case unwrap_all (create_metrics X) of
        Panic \<Rightarrow> Panic
      | Done cs \<Rightarrow>
          (case register_all X cs (pr_registry_new X) of
             Panic \<Rightarrow> Panic
           | Done registry \<Rightarrow> Done (registry, cs)))"

section \<open>What the crate promises\<close>

definition metric_name_start :: "u8 \<Rightarrow> bool" where
  "metric_name_start b \<longleftrightarrow> 65 \<le> b \<and> b \<le> 90 \<or> 97 \<le> b \<and> b \<le> 122 \<or> b = 95 \<or> b = 58"

definition metric_name_ok :: "str \<Rightarrow> bool" where
  "metric_name_ok n \<longleftrightarrow> n \<noteq> [] \<and> metric_name_start (hd n) \<and>
     list_all (\<lambda>b. metric_name_start b \<or> is_digit b) n"

text \<open>
  An object is created from a name of the Prometheus data model and a help text that is not empty;
  the bounds of the buckets have to increase.  A registry takes an object unless it already has one
  of the same name.
\<close>

locale prometheus =
  fixes X :: "('c, 'reg, 'x) prometheus_crate" and name_of :: "'c \<Rightarrow> str" and registered :: "'reg \<Rightarrow> str set"
  assumes counter_ok:
      "metric_name_ok n \<Longrightarrow> doc \<noteq> [] \<Longrightarrow> \<exists>c. pr_int_counter X n doc = Inr c \<and> name_of c = n"
    and gauge_ok:
      "metric_name_ok n \<Longrightarrow> doc \<noteq> [] \<Longrightarrow> \<exists>c. pr_int_gauge X n doc = Inr c \<and> name_of c = n"
    and histogram_ok:
      "metric_name_ok n \<Longrightarrow> doc \<noteq> [] \<Longrightarrow> sorted_wrt (<) buckets \<Longrightarrow>
         \<exists>c. pr_histogram X n doc buckets = Inr c \<and> name_of c = n"
    and registry_empty: "registered (pr_registry_new X) = {}"
    and register_new:
      "name_of c \<notin> registered r \<Longrightarrow>
         \<exists>r'. pr_register X r c = Inr r' \<and> registered r' = insert (name_of c) (registered r)"
    and register_again: "name_of c \<in> registered r \<Longrightarrow> \<exists>x. pr_register X r c = Inl x"
begin

lemma register_all_distinct:
  "distinct (map name_of cs) \<Longrightarrow> set (map name_of cs) \<inter> registered r = {} \<Longrightarrow>
     \<exists>r'. register_all X cs r = Done r' \<and> registered r' = registered r \<union> set (map name_of cs)"
proof (induction cs arbitrary: r)
  case (Cons c cs)
  then obtain r1 where r1: "pr_register X r c = Inr r1" "registered r1 = insert (name_of c) (registered r)"
    using register_new [of c r] by auto
  then have "set (map name_of cs) \<inter> registered r1 = {}" using Cons.prems by auto
  with Cons.prems Cons.IH [of r1] obtain r' where "register_all X cs r1 = Done r'"
      "registered r' = registered r1 \<union> set (map name_of cs)" by auto
  with r1 show ?case by (auto simp: unwrap_def)
qed simp

lemma unwrap_all_names:
  "list_all2 (\<lambda>r n. \<exists>c. r = Inr c \<and> name_of c = n) rs ns \<Longrightarrow>
     \<exists>cs. unwrap_all rs = Done cs \<and> map name_of cs = ns"
  by (induction rule: list_all2_induct) (auto simp: unwrap_def)

end

text \<open>A registry that keeps the names it was given.\<close>

definition names_registry :: "(str, str list, unit) prometheus_crate" where
  "names_registry =
     \<lparr>pr_int_counter = (\<lambda>n h. if metric_name_ok n \<and> h \<noteq> [] then Inr n else Inl ()),
      pr_int_gauge = (\<lambda>n h. if metric_name_ok n \<and> h \<noteq> [] then Inr n else Inl ()),
      pr_histogram = (\<lambda>n h bk. if metric_name_ok n \<and> h \<noteq> [] \<and> sorted_wrt (<) bk then Inr n else Inl ()),
      pr_registry_new = [],
      pr_register = (\<lambda>r c. if c \<in> set r then Inl () else Inr (c # r))\<rparr>"

interpretation names: prometheus names_registry "\<lambda>c. c" set
  by unfold_locales (simp_all add: names_registry_def)

section \<open>The names\<close>

definition metric_names :: "str list" where
  "metric_names = map bs
     [''petracache_cmd_get_total'', ''petracache_cmd_set_total'', ''petracache_cmd_add_total'',
      ''petracache_cmd_replace_total'', ''petracache_cmd_delete_total'', ''petracache_cmd_incr_total'',
      ''petracache_cmd_decr_total'', ''petracache_cmd_touch_total'', ''petracache_cmd_flush_total'',
      ''petracache_get_hits_total'', ''petracache_get_misses_total'', ''petracache_active_connections'',
      ''petracache_connections_total'', ''petracache_rejected_connections_total'',
      ''petracache_bytes_read_total'', ''petracache_bytes_written_total'',
      ''petracache_cmd_latency_seconds'', ''petracache_protocol_errors_total'',
      ''petracache_storage_errors_total'']"

lemma metric_names_ok: "list_all metric_name_ok metric_names"
  by (simp add: metric_names_def metric_name_ok_def metric_name_start_def is_digit_def bs_def)

lemma metric_names_distinct: "distinct metric_names"
  by (simp add: metric_names_def bs_def)

lemma metric_names_length: "length metric_names = 19"
  by (simp add: metric_names_def)

lemma latency_buckets_sorted: "sorted_wrt (<) latency_buckets"
  by (simp add: latency_buckets_def)

context prometheus
begin

lemma created_names: "\<exists>cs. unwrap_all (create_metrics X) = Done cs \<and> map name_of cs = metric_names"
proof (rule unwrap_all_names)
  note ok = metric_names_ok [unfolded metric_names_def list.map list.pred_inject]
  have nonempty: "bs (x # xs) \<noteq> []" for x xs by (simp add: bs_def)
  show "list_all2 (\<lambda>r n. \<exists>c. r = Inr c \<and> name_of c = n) (create_metrics X) metric_names"
    unfolding create_metrics_def metric_names_def list.map
    by (intro list_all2_Cons [THEN iffD2] conjI list.rel_intros counter_ok gauge_ok histogram_ok nonempty
        latency_buckets_sorted; insert ok; blast)
qed

lemma create_succeeds:
  "\<exists>registry cs. metrics_create X = Done (registry, cs) \<and> map name_of cs = metric_names \<and>
     registered registry = set metric_names"
proof -
  obtain cs where cs: "unwrap_all (create_metrics X) = Done cs" "map name_of cs = metric_names"
    using created_names by blast
  then have "distinct (map name_of cs)" by (simp add: metric_names_distinct)
  from register_all_distinct [OF this, of "pr_registry_new X"] cs show ?thesis
    by (auto simp: metrics_create_def registry_empty)
qed

end

section \<open>Counters of the hot path\<close>

text \<open>\<open>AtomicCounters\<close>, which the program defines and does not use: \<open>fetch_add\<close> wraps around.\<close>

record atomic_counters =
  ac_cmd_get :: u64
  ac_cmd_set :: u64
  ac_get_hits :: u64
  ac_get_misses :: u64
  ac_bytes_read :: u64
  ac_bytes_written :: u64

definition atomic_counters_new :: atomic_counters where
  "atomic_counters_new =
     \<lparr>ac_cmd_get = 0, ac_cmd_set = 0, ac_get_hits = 0, ac_get_misses = 0, ac_bytes_read = 0,
      ac_bytes_written = 0\<rparr>"

definition ac_inc_cmd_get :: "atomic_counters \<Rightarrow> atomic_counters" where
  "ac_inc_cmd_get a = a\<lparr>ac_cmd_get := ac_cmd_get a + 1\<rparr>"

definition ac_inc_cmd_set :: "atomic_counters \<Rightarrow> atomic_counters" where
  "ac_inc_cmd_set a = a\<lparr>ac_cmd_set := ac_cmd_set a + 1\<rparr>"

definition ac_inc_get_hits :: "atomic_counters \<Rightarrow> atomic_counters" where
  "ac_inc_get_hits a = a\<lparr>ac_get_hits := ac_get_hits a + 1\<rparr>"

definition ac_inc_get_misses :: "atomic_counters \<Rightarrow> atomic_counters" where
  "ac_inc_get_misses a = a\<lparr>ac_get_misses := ac_get_misses a + 1\<rparr>"

definition ac_add_bytes_read :: "u64 \<Rightarrow> atomic_counters \<Rightarrow> atomic_counters" where
  "ac_add_bytes_read n a = a\<lparr>ac_bytes_read := ac_bytes_read a + n\<rparr>"

definition ac_add_bytes_written :: "u64 \<Rightarrow> atomic_counters \<Rightarrow> atomic_counters" where
  "ac_add_bytes_written n a = a\<lparr>ac_bytes_written := ac_bytes_written a + n\<rparr>"

lemmas atomic_defs = atomic_counters_new_def ac_inc_cmd_get_def ac_inc_cmd_set_def ac_inc_get_hits_def
  ac_inc_get_misses_def ac_add_bytes_read_def ac_add_bytes_written_def

lemmas [run_simps] = atomic_defs

text \<open>A call on the counters, by any thread.\<close>

datatype counter_call = Inc_Get | Inc_Set | Inc_Hits | Inc_Misses | Add_Read u64 | Add_Written u64

fun counter_apply :: "counter_call \<Rightarrow> atomic_counters \<Rightarrow> atomic_counters" where
  "counter_apply Inc_Get = ac_inc_cmd_get"
| "counter_apply Inc_Set = ac_inc_cmd_set"
| "counter_apply Inc_Hits = ac_inc_get_hits"
| "counter_apply Inc_Misses = ac_inc_get_misses"
| "counter_apply (Add_Read n) = ac_add_bytes_read n"
| "counter_apply (Add_Written n) = ac_add_bytes_written n"

fun bytes_read_of :: "counter_call \<Rightarrow> nat" where
  "bytes_read_of (Add_Read n) = unat n"
| "bytes_read_of c = 0"

fun bytes_written_of :: "counter_call \<Rightarrow> nat" where
  "bytes_written_of (Add_Written n) = unat n"
| "bytes_written_of c = 0"

lemma counter_calls_fold:
  "let a' = fold counter_apply calls a in
     ac_cmd_get a' = ac_cmd_get a + of_nat (count_list calls Inc_Get) \<and>
     ac_cmd_set a' = ac_cmd_set a + of_nat (count_list calls Inc_Set) \<and>
     ac_get_hits a' = ac_get_hits a + of_nat (count_list calls Inc_Hits) \<and>
     ac_get_misses a' = ac_get_misses a + of_nat (count_list calls Inc_Misses) \<and>
     ac_bytes_read a' = ac_bytes_read a + of_nat (sum_list (map bytes_read_of calls)) \<and>
     ac_bytes_written a' = ac_bytes_written a + of_nat (sum_list (map bytes_written_of calls))"
proof (induction calls arbitrary: a)
  case (Cons c calls)
  then show ?case by (cases c) (auto simp: Let_def atomic_defs)
qed simp

section \<open>Properties\<close>

text \<open>
  C37: Building the metrics never panics: under the rules of the Prometheus crate all nineteen objects
  of \<open>Metrics::new\<close> are created (their names are well formed and the histogram's buckets increase)
  and registered (no two share a name), so none of its \<open>unwrap\<close> calls fails.
\<close>

theorem metrics_creation_succeeds:
  assumes "prometheus X name_of registered"
  shows "\<exists>registry cs. metrics_create X = Done (registry, cs) \<and> map name_of cs = metric_names \<and>
    length cs = 19 \<and> registered registry = set metric_names"
proof -
  obtain registry cs where "metrics_create X = Done (registry, cs)" "map name_of cs = metric_names"
      "registered registry = set metric_names"
    using prometheus.create_succeeds [OF assms] by blast
  moreover from this have "length cs = 19" by (metis length_map metric_names_length)
  ultimately show ?thesis by blast
qed

theorem metrics_creation_succeeds_witness:
  "\<exists>registry cs. metrics_create names_registry = Done (registry, cs) \<and> map (\<lambda>c. c) cs = metric_names \<and>
    length cs = 19 \<and> set registry = set metric_names"
  by (rule metrics_creation_succeeds [OF names.prometheus_axioms])

text \<open>
  The atomic counters count modulo \<open>2 ^ 64\<close>: after any sequence of calls, in whatever order the
  threads made them, every counter holds the number of its calls, and the byte counters the sum of
  their arguments, reduced modulo \<open>2 ^ 64\<close>.
\<close>

theorem atomic_counters_count:
  "let a = fold counter_apply calls atomic_counters_new in
     unat (ac_cmd_get a) = count_list calls Inc_Get mod 2 ^ 64 \<and>
     unat (ac_cmd_set a) = count_list calls Inc_Set mod 2 ^ 64 \<and>
     unat (ac_get_hits a) = count_list calls Inc_Hits mod 2 ^ 64 \<and>
     unat (ac_get_misses a) = count_list calls Inc_Misses mod 2 ^ 64 \<and>
     unat (ac_bytes_read a) = sum_list (map bytes_read_of calls) mod 2 ^ 64 \<and>
     unat (ac_bytes_written a) = sum_list (map bytes_written_of calls) mod 2 ^ 64"
  using counter_calls_fold [of calls atomic_counters_new]
  by (simp add: Let_def atomic_counters_new_def unat_of_nat)

end
