(* ===== verification/Handler.thy ===== *)
theory Handler
  imports Cache Config Metrics
begin

text \<open>
  The command handlers of \<open>src/server/handler.rs\<close> over the server state of \<open>src/server/mod.rs\<close>.
  The third-party code and the clock are gathered in the record \<open>platform\<close>; the semaphore of the
  \<open>tokio\<close> crate is the type parameter \<open>'sem\<close>.
\<close>

section \<open>Definitions\<close>

record ('db, 'e) platform =
  pf_rocksdb :: "('db, 'e) rocksdb_crate"
  pf_db_msg :: "'e \<Rightarrow> str"
  pf_itoa :: itoa
  pf_memchr :: memchr
  pf_clock :: clock

record ('db, 'sem) server =
  srv_config :: server_config
  srv_storage :: "'db storage"
  srv_metrics :: metrics
  srv_semaphore :: 'sem
  srv_cancelled :: bool

text \<open>Updating one part of the server.\<close>

definition upd_metrics :: "(metrics \<Rightarrow> metrics) \<Rightarrow> ('db, 'sem) server \<Rightarrow> ('db, 'sem) server" where
  "upd_metrics f srv = srv\<lparr>srv_metrics := f (srv_metrics srv)\<rparr>"

definition upd_storage :: "'db storage \<Rightarrow> ('db, 'sem) server \<Rightarrow> ('db, 'sem) server" where
  "upd_storage s srv = srv\<lparr>srv_storage := s\<rparr>"

definition inc_hits :: "metrics \<Rightarrow> metrics" where
  "inc_hits m = m\<lparr>m_get_hits := m_get_hits m + 1\<rparr>"

definition inc_misses :: "metrics \<Rightarrow> metrics" where
  "inc_misses m = m\<lparr>m_get_misses := m_get_misses m + 1\<rparr>"

definition inc_storage_errors :: "metrics \<Rightarrow> metrics" where
  "inc_storage_errors m = m\<lparr>m_storage_errors := m_storage_errors m + 1\<rparr>"

definition inc_cmd_get :: "metrics \<Rightarrow> metrics" where
  "inc_cmd_get m = m\<lparr>m_cmd_get := m_cmd_get m + 1\<rparr>"

definition inc_cmd_set :: "metrics \<Rightarrow> metrics" where
  "inc_cmd_set m = m\<lparr>m_cmd_set := m_cmd_set m + 1\<rparr>"

definition inc_cmd_delete :: "metrics \<Rightarrow> metrics" where
  "inc_cmd_delete m = m\<lparr>m_cmd_delete := m_cmd_delete m + 1\<rparr>"

text \<open>\<open>concat!("petracache ", env!("CARGO_PKG_VERSION"))\<close>, with the version of \<open>Cargo.toml\<close>.\<close>

definition version_string :: str where
  "version_string = bs ''petracache 0.1.0''"

definition handle_version :: "response_writer \<Rightarrow> response_writer" where
  "handle_version resp = writer_version version_string resp"

fun write_results ::
    "itoa \<Rightarrow> (bytes \<times> stored_value option) list \<Rightarrow> metrics \<times> response_writer \<Rightarrow>
      metrics \<times> response_writer" where
  "write_results it [] (m, resp) = (m, resp)"
| "write_results it ((key, Some v) # rest) (m, resp) =
     write_results it rest (inc_hits m, writer_value it key (sv_flags v) (sv_data v) resp)"
| "write_results it ((key, None) # rest) (m, resp) =
     write_results it rest (inc_misses m, resp)"

definition handle_get ::
    "('db, 'e) platform \<Rightarrow> bytes list \<Rightarrow> ('db, 'sem) server \<Rightarrow> response_writer \<Rightarrow>
      ('db, 'sem) server \<times> response_writer" where
  "handle_get P keys srv resp =
     (if length keys = 1 then
        (let (res, s) = rocks_get (pf_rocksdb P) (pf_clock P) (keys ! 0) (srv_storage srv);
             srv = upd_storage s srv
         in (case res of
               Inr (Some v) \<Rightarrow>
                 (upd_metrics inc_hits srv,
                  writer_end (writer_value (pf_itoa P) (keys ! 0) (sv_flags v) (sv_data v) resp))
             | Inr None \<Rightarrow> (upd_metrics inc_misses srv, writer_end resp)
             | Inl e \<Rightarrow>
                 (upd_metrics inc_storage_errors srv,
                  writer_server_error (storage_error_to_string (pf_db_msg P) e) resp)))
      else
        (let (res, s) = rocks_get_multi (pf_rocksdb P) (pf_clock P) keys (srv_storage srv);
             srv = upd_storage s srv
         in (case res of
               Inr results \<Rightarrow>
                 (let (m, resp) = write_results (pf_itoa P) results (srv_metrics srv, resp)
                  in (srv\<lparr>srv_metrics := m\<rparr>, writer_end resp))
             | Inl e \<Rightarrow>
                 (upd_metrics inc_storage_errors srv,
                  writer_server_error (storage_error_to_string (pf_db_msg P) e) resp))))"

definition handle_set ::
    "('db, 'e) platform \<Rightarrow> bytes \<Rightarrow> u32 \<Rightarrow> u64 \<Rightarrow> bytes \<Rightarrow> ('db, 'sem) server \<Rightarrow>
      response_writer \<Rightarrow> ('db, 'sem) server \<times> response_writer" where
  "handle_set P key flags exptime data srv resp =
     (let s = srv_storage srv;
          (v, i) = value_new (pf_clock P) flags exptime data (st_clock s);
          (res, s) = rocks_set (pf_rocksdb P) key v (s\<lparr>st_clock := i\<rparr>);
          srv = upd_storage s srv
      in (case res of
            Inr u \<Rightarrow> (srv, writer_stored resp)
          | Inl e \<Rightarrow>
              (upd_metrics inc_storage_errors srv,
               writer_server_error (storage_error_to_string (pf_db_msg P) e) resp)))"

definition handle_delete ::
    "('db, 'e) platform \<Rightarrow> bytes \<Rightarrow> ('db, 'sem) server \<Rightarrow> response_writer \<Rightarrow>
      ('db, 'sem) server \<times> response_writer" where
  "handle_delete P key srv resp =
     (let (res, s) = rocks_delete (pf_rocksdb P) key (srv_storage srv);
          srv = upd_storage s srv
      in (case res of
            Inr existed \<Rightarrow> (srv, if existed then writer_deleted resp else writer_not_found resp)
          | Inl e \<Rightarrow>
              (upd_metrics inc_storage_errors srv,
               writer_server_error (storage_error_to_string (pf_db_msg P) e) resp)))"

fun execute ::
    "('db, 'e) platform \<Rightarrow> command \<Rightarrow> ('db, 'sem) server \<Rightarrow> response_writer \<Rightarrow>
      ('db, 'sem) server \<times> response_writer" where
  "execute P (Get keys) srv resp = handle_get P keys (upd_metrics inc_cmd_get srv) resp"
| "execute P (Set key flags exptime data noreply) srv resp =
     handle_set P key flags exptime data (upd_metrics inc_cmd_set srv) resp"
| "execute P (Delete key noreply) srv resp =
     handle_delete P key (upd_metrics inc_cmd_delete srv) resp"
| "execute P Version srv resp = (srv, handle_version resp)"
| "execute P Quit srv resp = (srv, resp)"

lemmas upd_defs = upd_metrics_def upd_storage_def inc_hits_def inc_misses_def
  inc_storage_errors_def inc_cmd_get_def inc_cmd_set_def inc_cmd_delete_def

lemmas handler_defs = handle_version_def handle_get_def handle_set_def handle_delete_def
  version_string_def

lemmas [run_simps] = upd_defs handler_defs

text \<open>A platform made of the reference parts, and a server on an empty database.\<close>

definition ref_platform :: "clock \<Rightarrow> (mem_db, str) platform" where
  "ref_platform clk =
     \<lparr>pf_rocksdb = mem_rocksdb, pf_db_msg = id, pf_itoa = to_decimal, pf_memchr = memchr_loop,
      pf_clock = clk\<rparr>"

definition fresh_storage :: "'db \<Rightarrow> 'db storage" where
  "fresh_storage d =
     \<lparr>st_db = d, st_write_opts = \<lparr>wo_disable_wal = True\<rparr>, st_ttl_filter = True, st_expired_keys_removed = 0,
      st_ttl_compaction_removed = 0, st_clock = 0\<rparr>"

definition ref_server :: "mem_db \<Rightarrow> (mem_db, nat) server" where
  "ref_server d =
     \<lparr>srv_config = server_config_default, srv_storage = fresh_storage d,
      srv_metrics = metrics_new, srv_semaphore = 10000, srv_cancelled = False\<rparr>"

lemmas [run_simps] = ref_platform_def fresh_storage_def ref_server_def mem_rocksdb_def mem_empty_def
  next_fault_def

section \<open>What the platform promises\<close>

locale petracache_platform =
  memchr_crate "pf_memchr P" + itoa_crate "pf_itoa P" +
  rocks_storage "pf_rocksdb P" contents "pf_clock P"
  for P :: "('db, 'e) platform" and contents :: "'db \<Rightarrow> bytes \<Rightarrow> bytes option"

lemma ref_platform_sel [simp]:
  "pf_rocksdb (ref_platform clk) = mem_rocksdb" "pf_memchr (ref_platform clk) = memchr_loop"
  "pf_itoa (ref_platform clk) = to_decimal" "pf_clock (ref_platform clk) = clk"
  by (simp_all add: ref_platform_def)

interpretation ref: petracache_platform "ref_platform clk" fst for clk
  unfolding petracache_platform_def ref_platform_sel
  by (intro conjI loop.memchr_crate_axioms std_itoa.itoa_crate_axioms
      mem_storage.rocks_storage_axioms)

section \<open>The handlers refine the cache\<close>

abbreviation srv_clock :: "('db, 'sem) server \<Rightarrow> nat" where
  "srv_clock srv \<equiv> st_clock (srv_storage srv)"

abbreviation srv_contents ::
    "('db \<Rightarrow> bytes \<Rightarrow> bytes option) \<Rightarrow> ('db, 'sem) server \<Rightarrow> bytes \<Rightarrow> bytes option" where
  "srv_contents contents srv \<equiv> contents (st_db (srv_storage srv))"

lemma srv_upd_simps [simp]:
  "srv_storage (upd_metrics f srv) = srv_storage srv"
  "srv_metrics (upd_metrics f srv) = f (srv_metrics srv)"
  "srv_config (upd_metrics f srv) = srv_config srv"
  "srv_semaphore (upd_metrics f srv) = srv_semaphore srv"
  "srv_cancelled (upd_metrics f srv) = srv_cancelled srv"
  "srv_storage (upd_storage s srv) = s"
  "srv_metrics (upd_storage s srv) = srv_metrics srv"
  "srv_config (upd_storage s srv) = srv_config srv"
  "srv_semaphore (upd_storage s srv) = srv_semaphore srv"
  "srv_cancelled (upd_storage s srv) = srv_cancelled srv"
  by (simp_all add: upd_metrics_def upd_storage_def)

lemma rw_server_error:
  "rw_buf (writer_server_error msg resp) = rw_buf resp @ server_error_line msg"
  by (simp add: server_error_line_def)

text \<open>The items a list of results puts into a reply.\<close>

definition result_items :: "(bytes \<times> stored_value option) list \<Rightarrow> (bytes \<times> u32 \<times> bytes) list" where
  "result_items rs =
     concat (map (\<lambda>(k, r). case r of None \<Rightarrow> [] | Some v \<Rightarrow> [(k, sv_flags v, sv_data v)]) rs)"

definition count_gets :: "nat \<Rightarrow> nat \<Rightarrow> metrics \<Rightarrow> metrics" where
  "count_gets hits misses m =
     m\<lparr>m_get_hits := m_get_hits m + hits, m_get_misses := m_get_misses m + misses\<rparr>"

lemma count_gets_simps:
  "count_gets 0 0 m = m" "inc_hits m = count_gets 1 0 m" "inc_misses m = count_gets 0 1 m"
  "count_gets h n (count_gets h' n' m) = count_gets (h' + h) (n' + n) m"
  by (simp_all add: count_gets_def inc_hits_def inc_misses_def)

lemma result_items_simps [simp]:
  "result_items [] = []"
  "result_items ((k, None) # rs) = result_items rs"
  "result_items ((k, Some v) # rs) = (k, sv_flags v, sv_data v) # result_items rs"
  by (simp_all add: result_items_def)

lemma result_items_length: "length (result_items rs) \<le> length rs"
proof (induction rs)
  case (Cons x rs)
  then show ?case by (cases x; cases "snd x") auto
qed simp

lemma result_items_zip:
  "length ts = length ks \<Longrightarrow>
     result_items (map2 (\<lambda>t k. (k, visible t c k)) ts ks) = found_items c ts ks"
  by (induction ts ks rule: list_induct2) (auto split: option.splits)

context itoa_crate
begin

lemma write_results_eq:
  "write_results it rs (m, resp) = (m', resp') \<Longrightarrow>
     rw_buf resp' = rw_buf resp @ concat (map (\<lambda>(k, f, d). value_text k f d) (result_items rs)) \<and>
     m' = count_gets (length (result_items rs)) (length rs - length (result_items rs)) m"
proof (induction rs arbitrary: m resp)
  case Nil
  then show ?case by (simp add: count_gets_simps)
next
  case (Cons x rs)
  obtain k r where x: "x = (k, r)" by fastforce
  show ?case
  proof (cases r)
    case None
    with Cons.prems x have "write_results it rs (count_gets 0 1 m, resp) = (m', resp')"
      by (simp add: count_gets_simps)
    from Cons.IH [OF this] show ?thesis
      using x None result_items_length [of rs] by (simp add: count_gets_simps Suc_diff_le)
  next
    case (Some v)
    with Cons.prems x have "write_results it rs
        (count_gets 1 0 m, writer_value it k (sv_flags v) (sv_data v) resp) = (m', resp')"
      by (simp add: count_gets_simps)
    from Cons.IH [OF this] show ?thesis
      using x Some by (simp add: count_gets_simps rw_buf_value)
  qed
qed

end

lemma rocks_get_clock: "rocks_get R clk k s = (res, s') \<Longrightarrow> st_clock s \<le> st_clock s'"
  by (auto simp: rocks_get_def Let_def dest: is_expired_clock
      split: prod.splits sum.splits option.splits if_splits)

lemma rocks_set_clock: "rocks_set R k v s = (res, s') \<Longrightarrow> st_clock s' = st_clock s"
  by (auto simp: rocks_set_def Let_def split: prod.splits sum.splits)

text \<open>
  One statement per handler: what is appended to the response, the step of the abstract cache, and
  the metrics.
\<close>

abbreviation srv_cache :: "('db \<Rightarrow> bytes \<Rightarrow> bytes option) \<Rightarrow> ('db, 'sem) server \<Rightarrow> cache" where
  "srv_cache contents srv \<equiv> stored_map (srv_contents contents srv)"

abbreviation handler_times :: "clock \<Rightarrow> ('db, 'sem) server \<Rightarrow> ('db, 'sem) server \<Rightarrow> u64 set" where
  "handler_times clk srv srv' \<equiv> times_read clk (srv_clock srv) (srv_clock srv')"

lemma stored_map_forgets:
  assumes "\<And>k. m' k = m k \<or> m' k = None \<and> (\<exists>b v t. m k = Some b \<and> decode_opt b = Some v \<and>
    t \<in> T \<and> expired_at t v)"
  shows "forgets T (stored_map m) (stored_map m')"
  unfolding forgets_def
proof
  fix k
  show "stored_map m' k = stored_map m k \<or> stored_map m' k = None \<and>
      (\<exists>v t. stored_map m k = Some v \<and> t \<in> T \<and> expired_at t v)"
    using assms [of k] by (auto simp: stored_map_def)
qed

text \<open>What every handler keeps of the server.\<close>

lemma write_results_frame:
  "write_results it rs (m, resp) = (m', resp') \<Longrightarrow>
     m_active_connections m' = m_active_connections m \<and> m_protocol_errors m' = m_protocol_errors m"
  by (induction it rs "(m, resp)" arbitrary: m resp rule: write_results.induct)
    (auto simp: inc_hits_def inc_misses_def)

lemma handle_get_storage:
  "srv_storage (fst (handle_get P keys srv resp)) =
     (if length keys = 1
      then snd (rocks_get (pf_rocksdb P) (pf_clock P) (keys ! 0) (srv_storage srv))
      else snd (rocks_get_multi (pf_rocksdb P) (pf_clock P) keys (srv_storage srv)))"
  by (auto simp: handle_get_def Let_def split: sum.split option.split prod.split)

lemma multi_loop_clock: "multi_loop clk xs results expired i = (res, i') \<Longrightarrow> i \<le> i'"
proof (induction xs arbitrary: results expired i)
  case (Cons x xs)
  obtain k raw where x: "x = (k, raw)" by fastforce
  show ?case
    using Cons.prems x
    by (auto dest!: Cons.IH is_expired_clock
        split: sum.splits option.splits prod.splits if_splits)
qed simp

lemma rocks_get_multi_clock: "rocks_get_multi R clk ks s = (res, s') \<Longrightarrow> st_clock s \<le> st_clock s'"
  by (auto simp: rocks_get_multi_def Let_def dest!: multi_loop_clock
      split: prod.splits sum.splits if_splits)

lemma rocks_delete_clock: "rocks_delete R k s = (res, s') \<Longrightarrow> st_clock s' = st_clock s"
  by (auto simp: rocks_delete_def Let_def split: prod.splits sum.splits)

lemma value_new_clock: "value_new clk f x d i = (v, i') \<Longrightarrow> i \<le> i'"
  by (auto dest: value_new_deadline)

lemma execute_frame:
  assumes "execute P cmd srv resp = (srv', resp')"
  shows "srv_clock srv \<le> srv_clock srv' \<and> srv_config srv' = srv_config srv \<and>
    srv_semaphore srv' = srv_semaphore srv \<and> srv_cancelled srv' = srv_cancelled srv \<and>
    m_active_connections (srv_metrics srv') = m_active_connections (srv_metrics srv) \<and>
    m_protocol_errors (srv_metrics srv') = m_protocol_errors (srv_metrics srv)"
proof (cases cmd)
  case (Get keys)
  have "srv_clock srv \<le> srv_clock srv'"
    using handle_get_storage [of P keys "upd_metrics inc_cmd_get srv" resp] assms Get
      rocks_get_clock [OF prod.collapse [symmetric]]
      rocks_get_multi_clock [OF prod.collapse [symmetric]] by (auto split: if_splits)
  then show ?thesis
    using assms Get
    by (auto simp: handle_get_def Let_def inc_cmd_get_def inc_hits_def inc_misses_def
        inc_storage_errors_def dest: write_results_frame
        split: sum.splits option.splits prod.splits if_splits)
next
  case (Set k f x d r)
  then show ?thesis
    using assms
    by (auto simp: handle_set_def Let_def inc_cmd_set_def inc_storage_errors_def
        dest!: rocks_set_clock value_new_clock split: sum.splits prod.splits)
next
  case (Delete k r)
  then show ?thesis
    using assms
    by (auto simp: handle_delete_def Let_def inc_cmd_delete_def inc_storage_errors_def
        dest!: rocks_delete_clock split: sum.splits prod.splits)
qed (use assms in auto)

context petracache_platform
begin

lemma get_one_forgets:
  assumes "rocks_get (pf_rocksdb P) (pf_clock P) k s = (Inr r, s')"
  shows "forgets (times_read (pf_clock P) (st_clock s) (st_clock s'))
    (stored_map (contents (st_db s))) (stored_map (contents (st_db s')))"
  using rocks_get_cases [OF assms] times_read_first [OF rocks_get_clock [OF assms], of "pf_clock P"]
  by (intro stored_map_forgets) (auto split: if_splits)

lemma get_multi_forgets:
  assumes "rocks_get_multi (pf_rocksdb P) (pf_clock P) keys s = (Inr rs, s')"
  shows "forgets (times_read (pf_clock P) (st_clock s) (st_clock s'))
    (stored_map (contents (st_db s))) (stored_map (contents (st_db s')))"
proof -
  let ?m = "contents (st_db s)"
  obtain raws :: "('e + bytes option) list" and dead where b: "length raws = length keys"
      "\<forall>j r. j < length keys \<longrightarrow> raws ! j = Inr r \<longrightarrow> r = ?m (keys ! j)"
      "batch_ok (pf_clock P) (st_clock s) (st_clock s') (zip keys raws) rs dead"
      "\<forall>k. contents (st_db s') k = ?m k \<or> k \<in> set dead \<and> contents (st_db s') k = None"
    using rocks_get_multi_cases [OF assms] by auto
  have dead: "\<exists>b v t. ?m k = Some b \<and> decode_opt b = Some v \<and>
      t \<in> times_read (pf_clock P) (st_clock s) (st_clock s') \<and> expired_at t v"
    if dk: "k \<in> set dead" for k
  proof -
    obtain b v where "(k, Inr (Some b)) \<in> set (zip keys raws)" and v: "decode_opt b = Some v"
      and rw: "read_within (pf_clock P) (st_clock s) (st_clock s') (\<lambda>t. expired_at t v)"
      using b(3) dk by (auto simp: batch_ok_def batch_dead_def)
    then have "?m k = Some b" using b(1,2) by (auto simp: set_zip) metis
    with v rw show ?thesis by (auto simp: read_within_times)
  qed
  show ?thesis using b(4) dead by (intro stored_map_forgets) metis
qed

lemma get_multi_times:
  assumes "rocks_get_multi (pf_rocksdb P) (pf_clock P) keys s = (Inr rs, s')"
  shows "\<exists>ts. length ts = length keys \<and> set ts \<subseteq> times_read (pf_clock P) (st_clock s) (st_clock s') \<and>
    rs = map2 (\<lambda>t k. (k, visible t (stored_map (contents (st_db s))) k)) ts keys"
proof -
  let ?T = "times_read (pf_clock P) (st_clock s) (st_clock s')"
  let ?c = "stored_map (contents (st_db s))"
  note v = rocks_get_multi_values [OF assms]
  then have len: "length rs = length keys" by (metis length_map)
  have "\<forall>j < length keys. \<exists>t \<in> ?T. snd (rs ! j) = visible t ?c (keys ! j)"
    using v by (simp add: read_within_times stored_map_live_view)
  then obtain f where f: "\<forall>j < length keys. f j \<in> ?T \<and> snd (rs ! j) = visible (f j) ?c (keys ! j)"
    by metis
  let ?ts = "map f [0..<length keys]"
  have fst: "fst (rs ! j) = keys ! j" if "j < length keys" for j
    using v len that by (metis nth_map)
  have "rs = map2 (\<lambda>t k. (k, visible t ?c k)) ?ts keys"
    using f fst len by (intro nth_equalityI) (auto simp: prod_eq_iff)
  moreover have "length ?ts = length keys" and "set ?ts \<subseteq> ?T" using f by auto
  ultimately show ?thesis by blast
qed

lemma handle_get_one:
  assumes "handle_get P [k] srv resp = (srv', resp')"
  defines "c \<equiv> srv_cache contents srv" and "T \<equiv> handler_times (pf_clock P) srv srv'"
  shows "(\<exists>ts. length ts = length [k] \<and> set ts \<subseteq> T \<and>
      rw_buf resp' = rw_buf resp @ reply_text (found_items c ts [k]) \<and>
      forgets T c (srv_cache contents srv') \<and>
      srv_metrics srv' = count_gets (length (found_items c ts [k]))
        (length [k] - length (found_items c ts [k])) (srv_metrics srv)) \<or>
    (\<exists>e. rw_buf resp' = rw_buf resp @ server_error_line (storage_error_to_string (pf_db_msg P) e) \<and>
      srv_cache contents srv' = c \<and> srv_metrics srv' = inc_storage_errors (srv_metrics srv))"
proof -
  obtain res s where g: "rocks_get (pf_rocksdb P) (pf_clock P) k (srv_storage srv) = (res, s)"
    by fastforce
  have s: "srv_storage srv' = s"
    using assms(1) g by (auto simp: handle_get_def Let_def split: sum.splits option.splits)
  show ?thesis
  proof (cases res)
    case (Inl e)
    then have "contents (st_db s) = contents (st_db (srv_storage srv))"
      using rocks_get_cases [OF g] by auto
    then have "srv_cache contents srv' = c" by (simp add: s c_def)
    with assms(1) g Inl show ?thesis
      by (intro disjI2 exI [of _ e])
        (auto simp: handle_get_def Let_def rw_server_error c_def simp del: rw_buf_simps)
  next
    case (Inr r)
    let ?t = "reading (pf_clock P) (srv_clock srv)"
    have t: "?t \<in> T" using rocks_get_clock [OF g] s by (simp add: T_def times_read_first)
    have r: "r = visible ?t c k"
      using rocks_get_returns [of k "srv_storage srv" r s] g Inr
      by (simp add: c_def stored_map_live_view)
    have "forgets T c (srv_cache contents srv')"
      using get_one_forgets [of k "srv_storage srv" r s] g Inr s by (simp add: c_def T_def)
    moreover have "rw_buf resp' = rw_buf resp @ reply_text (found_items c [?t] [k]) \<and>
        srv_metrics srv' = count_gets (length (found_items c [?t] [k]))
          (length [k] - length (found_items c [?t] [k])) (srv_metrics srv)"
      using assms(1) g Inr r [symmetric]
      by (cases r) (auto simp: handle_get_def Let_def rw_buf_value reply_text_def count_gets_simps)
    moreover have "length [?t] = length [k] \<and> set [?t] \<subseteq> T" using t by simp
    ultimately show ?thesis by blast
  qed
qed

lemma handle_get_many:
  assumes "handle_get P keys srv resp = (srv', resp')" and "length keys \<noteq> 1"
  defines "c \<equiv> srv_cache contents srv" and "T \<equiv> handler_times (pf_clock P) srv srv'"
  shows "(\<exists>ts. length ts = length keys \<and> set ts \<subseteq> T \<and>
      rw_buf resp' = rw_buf resp @ reply_text (found_items c ts keys) \<and>
      forgets T c (srv_cache contents srv') \<and>
      srv_metrics srv' = count_gets (length (found_items c ts keys))
        (length keys - length (found_items c ts keys)) (srv_metrics srv)) \<or>
    (\<exists>e. rw_buf resp' = rw_buf resp @ server_error_line (storage_error_to_string (pf_db_msg P) e) \<and>
      srv_cache contents srv' = c \<and> srv_metrics srv' = inc_storage_errors (srv_metrics srv))"
proof -
  obtain res s where g: "rocks_get_multi (pf_rocksdb P) (pf_clock P) keys (srv_storage srv) = (res, s)"
    by fastforce
  have s: "srv_storage srv' = s"
    using assms(1,2) g by (auto simp: handle_get_def Let_def split: sum.splits option.splits prod.splits)
  show ?thesis
  proof (cases res)
    case (Inl e)
    then have "contents (st_db s) = contents (st_db (srv_storage srv))"
      using rocks_get_multi_cases [OF g] by auto
    then have "srv_cache contents srv' = c" by (simp add: s c_def)
    with assms(1,2) g Inl show ?thesis
      by (intro disjI2 exI [of _ e])
        (auto simp: handle_get_def Let_def rw_server_error c_def simp del: rw_buf_simps)
  next
    case (Inr rs)
    obtain ts where ts: "length ts = length keys" "set ts \<subseteq> T"
        "rs = map2 (\<lambda>t k. (k, visible t c k)) ts keys"
      using get_multi_times [of keys "srv_storage srv" rs s] g Inr s by (auto simp: c_def T_def)
    have items: "result_items rs = found_items c ts keys" and len: "length rs = length keys"
      using ts by (simp_all add: result_items_zip)
    obtain m r where w: "write_results (pf_itoa P) rs (srv_metrics srv, resp) = (m, r)" by fastforce
    have "forgets T c (srv_cache contents srv')"
      using get_multi_forgets [of keys "srv_storage srv" rs s] g Inr s by (simp add: c_def T_def)
    moreover have "rw_buf resp' = rw_buf resp @ reply_text (found_items c ts keys) \<and>
        srv_metrics srv' = count_gets (length (found_items c ts keys))
          (length keys - length (found_items c ts keys)) (srv_metrics srv)"
      using assms(1,2) g Inr w write_results_eq [OF w] items len
      by (auto simp: handle_get_def Let_def reply_text_def)
    ultimately show ?thesis using ts by blast
  qed
qed

lemma handle_get_refines:
  assumes "handle_get P keys srv resp = (srv', resp')"
  defines "c \<equiv> srv_cache contents srv" and "T \<equiv> handler_times (pf_clock P) srv srv'"
  shows "(\<exists>ts. length ts = length keys \<and> set ts \<subseteq> T \<and>
      rw_buf resp' = rw_buf resp @ reply_text (found_items c ts keys) \<and>
      forgets T c (srv_cache contents srv') \<and>
      srv_metrics srv' = count_gets (length (found_items c ts keys))
        (length keys - length (found_items c ts keys)) (srv_metrics srv)) \<or>
    (\<exists>e. rw_buf resp' = rw_buf resp @ server_error_line (storage_error_to_string (pf_db_msg P) e) \<and>
      srv_cache contents srv' = c \<and> srv_metrics srv' = inc_storage_errors (srv_metrics srv))"
proof (cases "length keys = 1")
  case True
  then obtain k where k: "keys = [k]" by (auto simp: length_Suc_conv)
  from handle_get_one [OF assms(1) [unfolded k]] show ?thesis unfolding k c_def T_def .
next
  case False
  from handle_get_many [OF assms(1) False] show ?thesis unfolding c_def T_def .
qed

lemma handle_set_refines:
  assumes "handle_set P key flags exptime data srv resp = (srv', resp')"
  defines "c \<equiv> srv_cache contents srv" and "T \<equiv> handler_times (pf_clock P) srv srv'"
    and "v \<equiv> with_expire_at flags (deadline (reading (pf_clock P) (srv_clock srv)) exptime) data"
  shows "reading (pf_clock P) (srv_clock srv) \<in> T \<and>
    (rw_buf resp' = rw_buf resp @ bs ''STORED'' @ crlf \<and> srv_cache contents srv' = c(key \<mapsto> v) \<and>
       srv_metrics srv' = srv_metrics srv \<or>
     (\<exists>e. rw_buf resp' = rw_buf resp @ server_error_line (storage_error_to_string (pf_db_msg P) e) \<and>
       srv_cache contents srv' \<in> {c, c(key \<mapsto> v)} \<and>
       srv_metrics srv' = inc_storage_errors (srv_metrics srv)))"
proof -
  obtain v0 i where vn: "value_new (pf_clock P) flags exptime data (srv_clock srv) = (v0, i)" by fastforce
  have v: "v0 = v" and i: "srv_clock srv \<le> i" using value_new_deadline [OF vn] by (simp_all add: v_def)
  let ?s = "(srv_storage srv)\<lparr>st_clock := i\<rparr>"
  obtain res s where st: "rocks_set (pf_rocksdb P) key v ?s = (res, s)" by fastforce
  have s: "srv_storage srv' = s"
    using assms(1) vn st v by (auto simp: handle_set_def Let_def split: sum.splits)
  have "reading (pf_clock P) (srv_clock srv) \<in> T"
    using rocks_set_clock [OF st] s i by (simp add: T_def times_read_first)
  moreover have "srv_cache contents srv' = c(key \<mapsto> v) \<or> res \<noteq> Inr () \<and> srv_cache contents srv' = c"
    using rocks_set_cases [OF st] s by (auto simp: c_def stored_map_upd)
  ultimately show ?thesis
    using assms(1) vn st v
    by (cases res) (auto simp: handle_set_def Let_def rw_server_error simp del: rw_buf_simps(7))
qed

lemma handle_delete_refines:
  assumes "handle_delete P key srv resp = (srv', resp')"
    and wf: "entries_wf (srv_contents contents srv)"
  defines "c \<equiv> srv_cache contents srv"
  shows "rw_buf resp' = rw_buf resp @
      (if c key = None then bs ''NOT_FOUND'' @ crlf else bs ''DELETED'' @ crlf) \<and>
      srv_cache contents srv' = c(key := None) \<and> srv_metrics srv' = srv_metrics srv \<or>
    (\<exists>e. rw_buf resp' = rw_buf resp @ server_error_line (storage_error_to_string (pf_db_msg P) e) \<and>
       srv_cache contents srv' \<in> {c, c(key := None)} \<and>
       srv_metrics srv' = inc_storage_errors (srv_metrics srv))"
proof -
  obtain res s where d: "rocks_delete (pf_rocksdb P) key (srv_storage srv) = (res, s)" by fastforce
  have s: "srv_storage srv' = s"
    using assms(1) d by (auto simp: handle_delete_def Let_def split: sum.splits)
  let ?m = "srv_contents contents srv"
  have err: "c(key := None) = stored_map (?m(key := None))" by (simp add: c_def stored_map_del)
  from rocks_delete_cases [OF d] show ?thesis
  proof (elim disjE conjE exE)
    assume r: "res = Inr (?m key \<noteq> None)" and m: "contents (st_db s) = ?m(key := None)"
    have "srv_cache contents srv' = c(key := None)" using m s err by simp
    moreover have "?m key = None \<longleftrightarrow> c key = None" using stored_map_None [OF wf] by (simp add: c_def)
    ultimately show ?thesis
      using assms(1) d r by (auto simp: handle_delete_def)
  next
    fix e assume r: "res = Inl (RocksDb e)" and "contents (st_db s) = ?m"
    then have "srv_cache contents srv' = c" using s by (simp add: c_def)
    with assms(1) d r show ?thesis
      by (intro disjI2 exI [of _ "RocksDb e"]) (auto simp: handle_delete_def server_error_line_def)
  next
    fix e assume r: "res = Inl (RocksDb e)" and m: "contents (st_db s) = ?m(key := None)"
    then have "srv_cache contents srv' = c(key := None)" using s err by simp
    with assms(1) d r show ?thesis
      by (intro disjI2 exI [of _ "RocksDb e"]) (auto simp: handle_delete_def server_error_line_def)
  qed
qed

lemma handle_version_refines:
  "rw_buf (handle_version resp) = rw_buf resp @ bs ''VERSION petracache 0.1.0'' @ crlf"
  by (simp add: handle_version_def version_string_def bs_def)

text \<open>Every command is a step of the abstract cache, and its reply is what was appended.\<close>

lemma execute_refines:
  assumes "execute P cmd srv resp = (srv', resp')" and wf: "entries_wf (srv_contents contents srv)"
  shows "\<exists>reply. rw_buf resp' = rw_buf resp @ reply \<and>
    cache_step (handler_times (pf_clock P) srv srv') cmd
      (srv_cache contents srv) reply (srv_cache contents srv')"
proof (cases cmd)
  case (Get keys)
  with assms have "handle_get P keys (upd_metrics inc_cmd_get srv) resp = (srv', resp')" by simp
  from handle_get_refines [OF this] show ?thesis
    unfolding Get by (auto intro: step_get step_get_error simp del: append_assoc)
next
  case (Set key flags exptime data noreply)
  with assms have "handle_set P key flags exptime data (upd_metrics inc_cmd_set srv) resp = (srv', resp')"
    by simp
  from handle_set_refines [OF this] show ?thesis
    unfolding Set by (auto intro: step_set step_set_error simp del: append_assoc)
next
  case (Delete key noreply)
  with assms have "handle_delete P key (upd_metrics inc_cmd_delete srv) resp = (srv', resp')" by simp
  note h = handle_delete_refines [OF this]
  show ?thesis
    using h wf step_delete [of "handler_times (pf_clock P) srv srv'" key noreply "srv_cache contents srv"]
    unfolding Delete
    by (auto intro: step_delete_error simp del: append_assoc)
qed (use assms in \<open>auto simp: handle_version_refines intro: step_version step_quit\<close>)

lemma handle_get_wf:
  assumes "handle_get P keys srv resp = (srv', resp')" and "entries_wf (srv_contents contents srv)"
  shows "entries_wf (srv_contents contents srv')"
  using handle_get_storage [of P keys srv resp] assms rocks_get_wf rocks_get_multi_wf
  by (metis fst_conv prod.collapse)

lemma handle_set_wf:
  assumes "handle_set P key flags exptime data srv resp = (srv', resp')"
    and "entries_wf (srv_contents contents srv)"
  shows "entries_wf (srv_contents contents srv')"
proof -
  obtain v i where v: "value_new (pf_clock P) flags exptime data (srv_clock srv) = (v, i)" by fastforce
  obtain res s where st: "rocks_set (pf_rocksdb P) key v ((srv_storage srv)\<lparr>st_clock := i\<rparr>) = (res, s)"
    by fastforce
  have "srv_storage srv' = s"
    using assms(1) v st by (auto simp: handle_set_def Let_def split: sum.splits)
  then show ?thesis using rocks_set_wf [OF st] assms(2) by simp
qed

lemma handle_delete_wf:
  assumes "handle_delete P key srv resp = (srv', resp')" and "entries_wf (srv_contents contents srv)"
  shows "entries_wf (srv_contents contents srv')"
proof -
  obtain res s where d: "rocks_delete (pf_rocksdb P) key (srv_storage srv) = (res, s)" by fastforce
  have "srv_storage srv' = s"
    using assms(1) d by (auto simp: handle_delete_def Let_def split: sum.splits)
  then show ?thesis using rocks_delete_wf [OF d] assms(2) by simp
qed

lemma execute_wf:
  assumes "execute P cmd srv resp = (srv', resp')" and "entries_wf (srv_contents contents srv)"
  shows "entries_wf (srv_contents contents srv')"
  using assms
  by (cases cmd) (auto dest: handle_get_wf handle_set_wf handle_delete_wf)

end

section \<open>Properties\<close>

lemma found_items_data:
  "\<forall>k v. c k = Some v \<longrightarrow> length (sv_data v) < n \<Longrightarrow> list_all is_valid_key ks \<Longrightarrow>
     \<forall>(k, f, d) \<in> set (found_items c ts ks). is_valid_key k \<and> length d < n"
  by (induction c ts ks rule: found_items.induct)
    (auto simp: visible_def split: option.splits if_splits)

text \<open>A reference server whose database holds one entry.\<close>

definition ref_server_with :: "bytes \<Rightarrow> stored_value \<Rightarrow> (mem_db, nat) server" where
  "ref_server_with k v = ref_server ([k \<mapsto> encode v], [k], [])"

lemmas [run_simps] = ref_server_with_def

lemma ref_server_with_cache:
  "srv_contents fst (ref_server_with k v) = [k \<mapsto> encode v]"
  "srv_cache fst (ref_server_with k v) = [k \<mapsto> v]"
  "srv_clock (ref_server_with k v) = 0"
  by (auto simp: ref_server_with_def ref_server_def fresh_storage_def stored_map_def fun_eq_iff)

lemma ref_server_with_wf: "entries_wf (srv_contents fst (ref_server_with k v))"
  by (simp add: ref_server_with_cache entries_wf_def encode_length)

text \<open>
  C4: The handlers implement the cache: executing any command appends exactly one reply to the
  response and changes the stored entries as one step of the abstract cache does, with the times the
  handler read from the clock.  Storage failures are steps too: they are answered by a
  \<open>SERVER_ERROR\<close> line and leave the entry as it was or as the command wanted it.
\<close>

theorem execute_refines_cache:
  assumes "petracache_platform P contents" and "execute P cmd srv resp = (srv', resp')"
    and "entries_wf (contents (st_db (srv_storage srv)))"
  shows "\<exists>reply. rw_buf resp' = rw_buf resp @ reply \<and>
    cache_step (times_read (pf_clock P) (srv_clock srv) (srv_clock srv')) cmd
      (stored_map (contents (st_db (srv_storage srv)))) reply
      (stored_map (contents (st_db (srv_storage srv'))))"
  using petracache_platform.execute_refines [OF assms] .

theorem execute_refines_cache_witness:
  "\<exists>reply T c'. rw_buf (snd (execute (ref_platform (\<lambda>i. 0)) (Delete [107] False)
      (ref_server_with [107] \<lparr>sv_expire_at = 0, sv_flags = 1, sv_data = []\<rparr>) (writer_new 0))) = reply \<and>
    cache_step T (Delete [107] False) [[107] \<mapsto> \<lparr>sv_expire_at = 0, sv_flags = 1, sv_data = []\<rparr>] reply c'"
proof -
  let ?srv = "ref_server_with [107] \<lparr>sv_expire_at = 0, sv_flags = 1, sv_data = []\<rparr>"
  let ?e = "execute (ref_platform (\<lambda>i. 0)) (Delete [107] False) ?srv (writer_new 0)"
  have e: "?e = (fst ?e, snd ?e)" by simp
  have "rw_buf (writer_new 0) = []" by simp
  with execute_refines_cache [OF ref.petracache_platform_axioms e ref_server_with_wf]
  show ?thesis unfolding ref_server_with_cache(2) by (metis append_Nil)
qed

text \<open>
  C22: A \<open>get\<close> is answered faithfully and counted exactly: unless the database fails, the client
  reads back one item for every requested key that was stored and not expired when the handler looked,
  in the order of the request, and nothing else; hits and misses go up by the keys found and not
  found, the command counter by one.  If the database fails, the reply is one \<open>SERVER_ERROR\<close> line and
  only the error counter moves besides the command counter.
\<close>

theorem get_reply_exact:
  assumes "petracache_platform P contents" and "execute P (Get keys) srv (writer_new n) = (srv', resp')"
    and "list_all is_valid_key keys"
    and "\<forall>k v. stored_map (contents (st_db (srv_storage srv))) k = Some v \<longrightarrow> length (sv_data v) < 2 ^ 64"
  shows "(\<exists>ts. length ts = length keys \<and>
      set ts \<subseteq> times_read (pf_clock P) (srv_clock srv) (srv_clock srv') \<and>
      (let items = found_items (stored_map (contents (st_db (srv_storage srv)))) ts keys
       in read_reply (rw_buf resp' @ tail) = Some (items, tail) \<and>
          srv_metrics srv' = (inc_cmd_get (srv_metrics srv))
            \<lparr>m_get_hits := m_get_hits (srv_metrics srv) + length items,
             m_get_misses := m_get_misses (srv_metrics srv) + (length keys - length items)\<rparr>)) \<or>
    (\<exists>e. rw_buf resp' = bs ''SERVER_ERROR '' @ storage_error_to_string (pf_db_msg P) e @ crlf \<and>
      srv_metrics srv' = inc_storage_errors (inc_cmd_get (srv_metrics srv)))"
proof -
  let ?c = "stored_map (contents (st_db (srv_storage srv)))"
  have "handle_get P keys (upd_metrics inc_cmd_get srv) (writer_new n) = (srv', resp')"
    using assms(2) by simp
  from petracache_platform.handle_get_refines [OF assms(1) this] show ?thesis
  proof (elim disjE exE conjE)
    fix ts assume ts: "length ts = length keys"
      "set ts \<subseteq> times_read (pf_clock P) (srv_clock (upd_metrics inc_cmd_get srv)) (srv_clock srv')"
      and r: "rw_buf resp' = rw_buf (writer_new n) @ reply_text (found_items
        (srv_cache contents (upd_metrics inc_cmd_get srv)) ts keys)"
      and m: "srv_metrics srv' = count_gets
        (length (found_items (srv_cache contents (upd_metrics inc_cmd_get srv)) ts keys))
        (length keys - length (found_items (srv_cache contents (upd_metrics inc_cmd_get srv)) ts keys))
        (srv_metrics (upd_metrics inc_cmd_get srv))"
    have "read_reply (rw_buf resp' @ tail) = Some (found_items ?c ts keys, tail)"
      using read_reply_text [OF found_items_data [OF assms(4,3)]] r by simp
    with ts m show ?thesis
      by (intro disjI1 exI [of _ ts]) (simp add: Let_def count_gets_def inc_cmd_get_def)
  next
    fix e assume "rw_buf resp' = rw_buf (writer_new n) @
        server_error_line (storage_error_to_string (pf_db_msg P) e)"
      and "srv_metrics srv' = inc_storage_errors (srv_metrics (upd_metrics inc_cmd_get srv))"
    then show ?thesis by (intro disjI2 exI [of _ e]) (simp add: server_error_line_def)
  qed
qed

theorem get_reply_exact_witness:
  "read_reply (rw_buf (snd (execute (ref_platform (\<lambda>i. 0)) (Get [[107], [108]])
      (ref_server_with [107] \<lparr>sv_expire_at = 0, sv_flags = 1, sv_data = [2]\<rparr>) (writer_new 0))) @ [9]) =
    Some ([([107], 1, [2])], [9])"
proof -
  let ?v = "\<lparr>sv_expire_at = 0, sv_flags = 1, sv_data = [2]\<rparr>"
  let ?srv = "ref_server_with [107] ?v"
  let ?e = "execute (ref_platform (\<lambda>i. 0)) (Get [[107], [108]]) ?srv (writer_new 0)"
  have e: "?e = (fst ?e, snd ?e)" by simp
  have keys: "list_all is_valid_key [[107], [108]]" by (simp add: run_simps)
  have small: "\<forall>k v. srv_cache fst ?srv k = Some v \<longrightarrow> length (sv_data v) < 2 ^ 64"
    unfolding ref_server_with_cache(2) by simp
  have ok: "m_storage_errors (srv_metrics (fst ?e)) = 0" by (simp add: run_simps)
  have items: "found_items [[107] \<mapsto> ?v] [t, t'] [[107], [108]] = [([107], 1, [2])]" for t t'
    by (simp add: visible_def expired_at_def)
  from get_reply_exact [OF ref.petracache_platform_axioms e keys small, of "[9]"] show ?thesis
  proof (elim disjE exE conjE)
    fix ts assume "length ts = length [[107], [108 :: u8]]"
      and l: "let items = found_items (srv_cache fst ?srv) ts [[107], [108]]
        in read_reply (rw_buf (snd ?e) @ [9]) = Some (items, [9]) \<and>
          srv_metrics (fst ?e) = (inc_cmd_get (srv_metrics ?srv))
            \<lparr>m_get_hits := m_get_hits (srv_metrics ?srv) + length items,
             m_get_misses := m_get_misses (srv_metrics ?srv) + (length [[107], [108 :: u8]] - length items)\<rparr>"
    then obtain t t' where "ts = [t, t']" by (auto simp: length_Suc_conv)
    with l items [of t t'] show ?thesis unfolding ref_server_with_cache(2) by (simp only: Let_def)
  next
    fix x assume "srv_metrics (fst ?e) = inc_storage_errors (inc_cmd_get (srv_metrics ?srv))"
    with ok show ?thesis by (simp add: inc_storage_errors_def)
  qed
qed

text \<open>
  A delete is answered by what the database holds: unless the database fails, the reply is
  \<open>DELETED\<close> exactly when an entry was stored under the key, expired or not, and \<open>NOT_FOUND\<close> otherwise,
  and no entry is left.  An expired entry that no \<open>get\<close> would show is therefore reported as deleted.
\<close>

theorem delete_answers_stored:
  assumes "petracache_platform P contents" and "execute P (Delete key noreply) srv resp = (srv', resp')"
    and "entries_wf (contents (st_db (srv_storage srv)))"
    and "m_storage_errors (srv_metrics srv') = m_storage_errors (srv_metrics srv)"
  shows "rw_buf resp' = rw_buf resp @
      (if contents (st_db (srv_storage srv)) key = None then bs ''NOT_FOUND'' @ crlf
       else bs ''DELETED'' @ crlf) \<and>
    stored_map (contents (st_db (srv_storage srv'))) =
      (stored_map (contents (st_db (srv_storage srv))))(key := None)"
proof -
  have "handle_delete P key (upd_metrics inc_cmd_delete srv) resp = (srv', resp')"
    using assms(2) by simp
  from petracache_platform.handle_delete_refines [OF assms(1) this] assms(3,4)
    stored_map_None [OF assms(3), of key]
  show ?thesis by (auto simp: inc_storage_errors_def inc_cmd_delete_def)
qed

theorem delete_answers_stored_witness:
  "rw_buf (snd (execute (ref_platform (\<lambda>i. 60000000000)) (Delete [107] False)
      (ref_server_with [107] \<lparr>sv_expire_at = 60, sv_flags = 1, sv_data = []\<rparr>) (writer_new 0))) =
    bs ''DELETED'' @ crlf"
proof -
  let ?srv = "ref_server_with [107] \<lparr>sv_expire_at = 60, sv_flags = 1, sv_data = []\<rparr>"
  let ?e = "execute (ref_platform (\<lambda>i. 60000000000)) (Delete [107] False) ?srv (writer_new 0)"
  have e: "?e = (fst ?e, snd ?e)" by simp
  have "m_storage_errors (srv_metrics (fst ?e)) = m_storage_errors (srv_metrics ?srv)"
    by (simp add: run_simps)
  from delete_answers_stored [OF ref.petracache_platform_axioms e ref_server_with_wf this]
  show ?thesis by (simp add: ref_server_with_cache)
qed

end
