(* ===== verification/Connection.thy ===== *)
theory Connection
  imports Handler
begin

text \<open>
  The connection task of \<open>src/server/connection.rs\<close>.  The TCP stream of the \<open>tokio\<close> crate is a
  parameter: the record \<open>tcp_stream\<close> holds \<open>write_all\<close>, and what the \<open>select!\<close> of the outer loop
  yields is an event (the cancellation, or the result of a read, with no bytes at the end of the
  stream).  The inner loop runs until it breaks or returns; it is a partial function, so that
  running forever is the value \<open>None\<close>.
\<close>

section \<open>Definitions\<close>

record ('st, 'we) tcp_stream =
  tcp_write_all :: "'st \<Rightarrow> bytes \<Rightarrow> ('we + unit) \<times> 'st"

record 'st connection =
  cn_read_buf :: bytes
  cn_response :: response_writer
  cn_pending :: "pending_storage_command option"
  cn_stream :: 'st

datatype 're conn_event = Cancelled | Read "'re + bytes"

text \<open>
  How one turn of the inner loop goes on: the next turn, the \<open>break\<close> to the outer loop, the
  \<open>return Ok(())\<close> of \<open>quit\<close>, or the error that \<open>?\<close> passes on.
\<close>

datatype ('s, 'we) flow = Again 's | Break 's | Return 's | Failed 'we 's

type_synonym ('db, 'sem, 'st) conn_state = "('db, 'sem) server \<times> 'st connection"

definition inc_bytes_read :: "nat \<Rightarrow> metrics \<Rightarrow> metrics" where
  "inc_bytes_read n m = m\<lparr>m_bytes_read := m_bytes_read m + n\<rparr>"

definition inc_bytes_written :: "nat \<Rightarrow> metrics \<Rightarrow> metrics" where
  "inc_bytes_written n m = m\<lparr>m_bytes_written := m_bytes_written m + n\<rparr>"

definition inc_protocol_errors :: "metrics \<Rightarrow> metrics" where
  "inc_protocol_errors m = m\<lparr>m_protocol_errors := m_protocol_errors m + 1\<rparr>"

definition dec_active :: "metrics \<Rightarrow> metrics" where
  "dec_active m = m\<lparr>m_active_connections := m_active_connections m - 1\<rparr>"

definition conn_find_crlf :: "memchr \<Rightarrow> bytes \<Rightarrow> nat option" where
  "conn_find_crlf mc buf =
     (case mc CR buf of
        None \<Rightarrow> None
      | Some i \<Rightarrow> if slice_get buf (i + 1) = Some LF then Some i else None)"

text \<open>\<open>BytesMut::split_to\<close> with the front part dropped.\<close>

definition split_to :: "nat \<Rightarrow> bytes \<Rightarrow> bytes outcome" where
  "split_to n buf = (if n \<le> length buf then Done (drop n buf) else Panic)"

text \<open>\<open>response.take()\<close>, the written-bytes counter, and \<open>stream.write_all(&buf).await\<close>.\<close>

definition send_response ::
    "('st, 'we) tcp_stream \<Rightarrow> ('db, 'sem, 'st) conn_state \<Rightarrow>
      ('we + unit) \<times> ('db, 'sem, 'st) conn_state" where
  "send_response W st =
     (let (srv, c) = st;
          (buf, resp) = writer_take (cn_response c);
          c = c\<lparr>cn_response := resp\<rparr>;
          srv = upd_metrics (inc_bytes_written (length buf)) srv;
          (res, stream) = tcp_write_all W (cn_stream c) buf
      in (res, (srv, c\<lparr>cn_stream := stream\<rparr>)))"

definition on_complete ::
    "('db, 'e) platform \<Rightarrow> ('st, 'we) tcp_stream \<Rightarrow> command \<Rightarrow> usize \<Rightarrow>
      ('db, 'sem, 'st) conn_state \<Rightarrow> (('db, 'sem, 'st) conn_state, 'we) flow outcome" where
  "on_complete P W cmd consumed st =
     (let (srv, c) = st;
          c = c\<lparr>cn_pending := None\<rparr>;
          should_quit = (cmd = Quit);
          noreply = is_noreply cmd;
          (srv, resp) = execute P cmd srv (cn_response c);
          c = c\<lparr>cn_response := resp\<rparr>
      in (case split_to (unat consumed) (cn_read_buf c) of
            Panic \<Rightarrow> Panic
          | Done rest \<Rightarrow>
          (let c = c\<lparr>cn_read_buf := rest\<rparr>;
               (res, (srv, c)) =
                 (if \<not> noreply \<and> \<not> writer_is_empty (cn_response c) then send_response W (srv, c)
                  else (Inr (), (srv, c)))
           in (case res of
                 Inl e \<Rightarrow> Done (Failed e (srv, c))
               | Inr u \<Rightarrow>
                   (let c = c\<lparr>cn_response := writer_clear (cn_response c)\<rparr>
                    in Done (if should_quit then Return (srv, c) else Again (srv, c)))))))"

definition on_need_more ::
    "('db, 'e) platform \<Rightarrow> ('db, 'sem, 'st) conn_state \<Rightarrow>
      (('db, 'sem, 'st) conn_state, 'we) flow outcome" where
  "on_need_more P st =
     (let (srv, c) = st
      in Done (Break (srv,
           if cn_pending c = None then
             (case parse_storage_command_line (pf_memchr P) (cn_read_buf c) of
                Inr (Some pending) \<Rightarrow> c\<lparr>cn_pending := Some pending\<rparr>
              | _ \<Rightarrow> c)
           else c)))"

definition on_error ::
    "('db, 'e) platform \<Rightarrow> ('st, 'we) tcp_stream \<Rightarrow> protocol_error \<Rightarrow>
      ('db, 'sem, 'st) conn_state \<Rightarrow> (('db, 'sem, 'st) conn_state, 'we) flow outcome" where
  "on_error P W e st =
     (let (srv, c) = st;
          srv = upd_metrics inc_protocol_errors srv;
          c = c\<lparr>cn_response := writer_client_error (protocol_error_to_string e) (cn_response c)\<rparr>
      in (case (case conn_find_crlf (pf_memchr P) (cn_read_buf c) of
                  Some pos \<Rightarrow> split_to (pos + 2) (cn_read_buf c)
                | None \<Rightarrow> Done []) of
            Panic \<Rightarrow> Panic
          | Done rest \<Rightarrow>
          (let c = c\<lparr>cn_read_buf := rest, cn_pending := None\<rparr>;
               (res, (srv, c)) = send_response W (srv, c)
           in (case res of
                 Inl err \<Rightarrow> Done (Failed err (srv, c))
               | Inr u \<Rightarrow> Done (Break (srv, c\<lparr>cn_response := writer_clear (cn_response c)\<rparr>))))))"

definition process_one ::
    "('db, 'e) platform \<Rightarrow> ('st, 'we) tcp_stream \<Rightarrow> ('db, 'sem, 'st) conn_state \<Rightarrow>
      (('db, 'sem, 'st) conn_state, 'we) flow outcome" where
  "process_one P W st =
     (case (case cn_pending (snd st) of
              Some pending \<Rightarrow> parse_storage_data (cn_read_buf (snd st)) pending
            | None \<Rightarrow> parse (pf_memchr P) (cn_read_buf (snd st))) of
        Panic \<Rightarrow> Panic
      | Done (Complete cmd consumed) \<Rightarrow> on_complete P W cmd consumed st
      | Done NeedMoreData \<Rightarrow> on_need_more P st
      | Done (Error e) \<Rightarrow> on_error P W e st)"

partial_function (option) process_loop ::
    "('db, 'e) platform \<Rightarrow> ('st, 'we) tcp_stream \<Rightarrow> ('db, 'sem, 'st) conn_state \<Rightarrow>
      (('db, 'sem, 'st) conn_state, 'we) flow outcome option" where
  "process_loop P W st =
     (case process_one P W st of
        Done (Again st') \<Rightarrow> process_loop P W st'
      | r \<Rightarrow> Some r)"

text \<open>
  The whole task on the events it meets.  \<open>Waiting\<close> is the task at its \<open>select!\<close> when the events
  are used up; \<open>Closed\<close> is the end of the function after the loop, where the gauge goes down;
  \<open>Quitted\<close> and \<open>Errored\<close> are the early exits.  The inner loop never stops at \<open>Again\<close>; that case of
  its result is there for completeness.
\<close>

datatype 'we conn_status = Waiting | Closed | Quitted | Errored 'we

definition close_connection ::
    "('db, 'sem, 'st) conn_state \<Rightarrow> 'we conn_status \<times> ('db, 'sem, 'st) conn_state" where
  "close_connection st = (let (srv, c) = st in (Closed, (upd_metrics dec_active srv, c)))"

definition receive :: "bytes \<Rightarrow> ('db, 'sem, 'st) conn_state \<Rightarrow> ('db, 'sem, 'st) conn_state" where
  "receive data st =
     (let (srv, c) = st
      in (upd_metrics (inc_bytes_read (length data)) srv, c\<lparr>cn_read_buf := cn_read_buf c @ data\<rparr>))"

fun handle_events ::
    "('db, 'e) platform \<Rightarrow> ('st, 'we) tcp_stream \<Rightarrow> 're conn_event list \<Rightarrow>
      ('db, 'sem, 'st) conn_state \<Rightarrow>
      ('we conn_status \<times> ('db, 'sem, 'st) conn_state) outcome option" where
  "handle_events P W [] st = Some (Done (Waiting, st))"
| "handle_events P W (Cancelled # evs) st = Some (Done (close_connection st))"
| "handle_events P W (Read (Inl e) # evs) st = Some (Done (close_connection st))"
| "handle_events P W (Read (Inr data) # evs) st =
     (if data = [] then Some (Done (close_connection st))
      else
      (case process_loop P W (receive data st) of
         None \<Rightarrow> None
       | Some Panic \<Rightarrow> Some Panic
       | Some (Done (Again st')) \<Rightarrow> None
       | Some (Done (Break st')) \<Rightarrow> handle_events P W evs st'
       | Some (Done (Return st')) \<Rightarrow> Some (Done (Quitted, st'))
       | Some (Done (Failed e st')) \<Rightarrow> Some (Done (Errored e, st'))))"

definition conn_new :: "('db, 'sem) server \<Rightarrow> 'st \<Rightarrow> 'st connection" where
  "conn_new srv stream =
     \<lparr>cn_read_buf = [], cn_response = writer_new (sc_write_buffer_size (srv_config srv)),
      cn_pending = None, cn_stream = stream\<rparr>"

definition handle ::
    "('db, 'e) platform \<Rightarrow> ('st, 'we) tcp_stream \<Rightarrow> 're conn_event list \<Rightarrow> ('db, 'sem) server \<Rightarrow> 'st \<Rightarrow>
      ('we conn_status \<times> ('db, 'sem, 'st) conn_state) outcome option" where
  "handle P W evs srv stream = handle_events P W evs (srv, conn_new srv stream)"

lemmas connection_defs = inc_bytes_read_def inc_bytes_written_def inc_protocol_errors_def
  dec_active_def conn_find_crlf_def split_to_def send_response_def on_complete_def on_need_more_def
  on_error_def process_one_def close_connection_def receive_def conn_new_def handle_def

lemmas [run_simps] = connection_defs process_loop.simps

text \<open>A stream that collects what is written and fails as a script says.\<close>

definition mem_stream :: "(bytes \<times> bool list, unit) tcp_stream" where
  "mem_stream = \<lparr>tcp_write_all = (\<lambda>(out, fs) b.
     case fs of [] \<Rightarrow> (Inr (), (out @ b, [])) | f # fs \<Rightarrow>
       if f then (Inl (), (out, fs)) else (Inr (), (out @ b, fs)))\<rparr>"

lemmas [run_simps] = mem_stream_def

section \<open>What the stream promises\<close>

text \<open>
  \<open>sent s\<close> is what the peer has been sent: all of the buffer when the write succeeds, a part of it
  when it fails.
\<close>

locale tcp =
  fixes W :: "('st, 'we) tcp_stream" and sent :: "'st \<Rightarrow> bytes"
  assumes write_ok: "tcp_write_all W s b = (Inr u, s') \<Longrightarrow> sent s' = sent s @ b"
    and write_err: "tcp_write_all W s b = (Inl e, s') \<Longrightarrow> \<exists>n. sent s' = sent s @ take n b"

interpretation mem_tcp: tcp mem_stream fst
  by unfold_locales
    (auto simp: mem_stream_def split: list.splits if_splits intro: exI [of _ 0])

text \<open>A peer that reads everything: no write fails.\<close>

definition accepts_writes :: "('st, 'we) tcp_stream \<Rightarrow> bool" where
  "accepts_writes W \<longleftrightarrow> (\<forall>s b. fst (tcp_write_all W s b) = Inr ())"

locale petracache_conn = petracache_platform P contents + tcp W sent
  for P :: "('db, 'e) platform" and contents and W :: "('st, 'we) tcp_stream" and sent

interpretation ref_conn: petracache_conn "ref_platform clk" fst mem_stream fst for clk
  by unfold_locales

section \<open>The state between turns\<close>

text \<open>
  Nothing is left in the response, and a remembered storage command is the one the buffer starts
  with.
\<close>

definition conn_ok :: "memchr \<Rightarrow> 'st connection \<Rightarrow> bool" where
  "conn_ok mc c \<longleftrightarrow> cn_response c = \<lparr>rw_buf = []\<rparr> \<and>
     (\<forall>p. cn_pending c = Some p \<longrightarrow> parse_storage_command_line mc (cn_read_buf c) = Inr (Some p))"

lemma writer_clear_eq: "writer_clear w = \<lparr>rw_buf = []\<rparr>"
  by (cases w) (simp add: writer_clear_def)

lemma conn_ok_new: "conn_ok mc (conn_new srv stream)"
  by (simp add: conn_ok_def conn_new_def writer_new_def)

lemma conn_ok_parse:
  "conn_ok mc c \<Longrightarrow>
     (case cn_pending c of Some p \<Rightarrow> parse_storage_data (cn_read_buf c) p | None \<Rightarrow> parse mc (cn_read_buf c))
       = parse mc (cn_read_buf c)"
  by (auto simp: conn_ok_def parse_pending split: option.split)

fun flow_state :: "('s, 'we) flow \<Rightarrow> 's" where
  "flow_state (Again s) = s"
| "flow_state (Break s) = s"
| "flow_state (Return s) = s"
| "flow_state (Failed e s) = s"

text \<open>What nothing in a connection changes of the server, and that entries keep their headers.\<close>

definition srv_kept ::
    "('db \<Rightarrow> bytes \<Rightarrow> bytes option) \<Rightarrow> ('db, 'sem) server \<Rightarrow> ('db, 'sem) server \<Rightarrow> bool" where
  "srv_kept contents srv srv' \<longleftrightarrow>
     srv_semaphore srv' = srv_semaphore srv \<and> srv_config srv' = srv_config srv \<and>
     srv_cancelled srv' = srv_cancelled srv \<and>
     (entries_wf (srv_contents contents srv) \<longrightarrow> entries_wf (srv_contents contents srv'))"

lemma srv_kept_refl [simp]: "srv_kept contents srv srv"
  by (simp add: srv_kept_def)

lemma srv_kept_trans: "srv_kept contents a b \<Longrightarrow> srv_kept contents b c \<Longrightarrow> srv_kept contents a c"
  by (simp add: srv_kept_def)

lemma srv_kept_metrics [simp]: "srv_kept contents srv (upd_metrics f srv') \<longleftrightarrow> srv_kept contents srv srv'"
  by (simp add: srv_kept_def)

text \<open>
  What one turn may do: the state stays in order, the buffer loses a prefix (a proper one before
  another turn), and the gauge of connections is not touched.
\<close>

definition turn_ok ::
    "('db \<Rightarrow> bytes \<Rightarrow> bytes option) \<Rightarrow> memchr \<Rightarrow> ('db, 'sem, 'st) conn_state \<Rightarrow>
      (('db, 'sem, 'st) conn_state, 'we) flow \<Rightarrow> bool" where
  "turn_ok contents mc st f \<longleftrightarrow> (let (srv, c) = st; (srv', c') = flow_state f in
     conn_ok mc c' \<and> (\<exists>k. cn_read_buf c' = drop k (cn_read_buf c)) \<and>
     (\<forall>st'. f = Again st' \<longrightarrow> length (cn_read_buf c') < length (cn_read_buf c)) \<and>
     m_active_connections (srv_metrics srv') = m_active_connections (srv_metrics srv) \<and>
     srv_kept contents srv srv')"

lemma turn_ok_trans:
  assumes "turn_ok contents mc (srv', c') f" and "\<nexists>st. f = Again st"
    and "cn_read_buf c' = drop k (cn_read_buf c)"
    and "m_active_connections (srv_metrics srv') = m_active_connections (srv_metrics srv)"
    and "srv_kept contents srv srv'"
  shows "turn_ok contents mc (srv, c) f"
proof -
  obtain srv2 c2 where st: "flow_state f = (srv2, c2)" by fastforce
  obtain k' where "cn_read_buf c2 = drop k' (cn_read_buf c')"
    using assms(1) st by (auto simp: turn_ok_def)
  then have "cn_read_buf c2 = drop (k' + k) (cn_read_buf c)" using assms(3) by simp
  moreover have "srv_kept contents srv srv2"
    using assms(1,5) st srv_kept_trans by (auto simp: turn_ok_def)
  ultimately show ?thesis using assms st by (auto simp: turn_ok_def)
qed

definition client_error_line :: "protocol_error \<Rightarrow> bytes" where
  "client_error_line e = bs ''CLIENT_ERROR '' @ protocol_error_to_string e @ crlf"

lemma rw_client_error:
  "rw_buf (writer_client_error (protocol_error_to_string e) \<lparr>rw_buf = []\<rparr>) = client_error_line e"
  by (simp add: client_error_line_def)

lemma conn_find_crlf_eq: "conn_find_crlf = find_crlf"
  by (simp add: fun_eq_iff conn_find_crlf_def find_crlf_def)

lemma active_incs [simp]:
  "m_active_connections (inc_bytes_written n m) = m_active_connections m"
  "m_active_connections (inc_bytes_read n m) = m_active_connections m"
  "m_active_connections (inc_protocol_errors m) = m_active_connections m"
  by (simp_all add: inc_bytes_written_def inc_bytes_read_def inc_protocol_errors_def)

context petracache_conn
begin

lemma conn_ok_receive:
  "conn_ok (pf_memchr P) c \<Longrightarrow> conn_ok (pf_memchr P) (snd (receive data (srv, c)))"
  using command_line_append pending_line by (fastforce simp: conn_ok_def receive_def)

lemma process_one_parse:
  "conn_ok (pf_memchr P) c \<Longrightarrow>
     process_one P W (srv, c) =
       (case parse (pf_memchr P) (cn_read_buf c) of
          Panic \<Rightarrow> Panic
        | Done (Complete cmd consumed) \<Rightarrow> on_complete P W cmd consumed (srv, c)
        | Done NeedMoreData \<Rightarrow> on_need_more P (srv, c)
        | Done (Error e) \<Rightarrow> on_error P W e (srv, c))"
  by (simp only: process_one_def snd_conv conn_ok_parse)

lemma on_complete_silent:
  assumes "execute P cmd srv (cn_response c) = (srv1, resp)" and "unat n \<le> length (cn_read_buf c)"
    and "is_noreply cmd \<or> rw_buf resp = []"
  shows "on_complete P W cmd n (srv, c) =
    Done ((if cmd = Quit then Return else Again)
      (srv1, c\<lparr>cn_read_buf := drop (unat n) (cn_read_buf c), cn_response := \<lparr>rw_buf = []\<rparr>,
        cn_pending := None\<rparr>))"
  using assms by (auto simp: on_complete_def split_to_def writer_clear_eq Let_def)

lemma on_complete_reply:
  assumes "execute P cmd srv (cn_response c) = (srv1, resp)" and "unat n \<le> length (cn_read_buf c)"
    and "\<not> is_noreply cmd" and "rw_buf resp \<noteq> []"
    and "tcp_write_all W (cn_stream c) (rw_buf resp) = (res, s)"
  shows "on_complete P W cmd n (srv, c) =
    (let st = (upd_metrics (inc_bytes_written (length (rw_buf resp))) srv1,
          c\<lparr>cn_read_buf := drop (unat n) (cn_read_buf c), cn_response := \<lparr>rw_buf = []\<rparr>,
            cn_pending := None, cn_stream := s\<rparr>)
     in Done (case res of Inl e \<Rightarrow> Failed e st | Inr u \<Rightarrow> (if cmd = Quit then Return st else Again st)))"
  using assms
  by (auto simp: on_complete_def split_to_def writer_clear_eq send_response_def Let_def
      split: sum.split)

lemma on_complete_turn:
  assumes n: "2 \<le> unat n" "unat n \<le> length (cn_read_buf c)"
  shows "\<exists>f. on_complete P W cmd n (srv, c) = Done f \<and> turn_ok contents (pf_memchr P) (srv, c) f"
proof -
  obtain srv1 resp where ex: "execute P cmd srv (cn_response c) = (srv1, resp)" by fastforce
  obtain res s where w: "tcp_write_all W (cn_stream c) (rw_buf resp) = (res, s)" by fastforce
  have fr: "m_active_connections (srv_metrics srv1) = m_active_connections (srv_metrics srv)"
      "srv_kept contents srv srv1"
    using execute_frame [OF ex] execute_wf [OF ex] by (auto simp: srv_kept_def)
  show ?thesis
  proof (cases "is_noreply cmd \<or> rw_buf resp = []")
    case True
    from on_complete_silent [OF ex n(2) True] n fr show ?thesis
      by (auto simp: turn_ok_def conn_ok_def intro: exI [of _ "unat n"])
  next
    case False
    with on_complete_reply [OF ex n(2) _ _ w] n fr show ?thesis
      by (cases res) (auto simp: turn_ok_def conn_ok_def Let_def intro: exI [of _ "unat n"])
  qed
qed

lemma on_error_eq:
  assumes "find_crlf (pf_memchr P) (cn_read_buf c) = Some i" and "cn_response c = \<lparr>rw_buf = []\<rparr>"
    and "tcp_write_all W (cn_stream c) (client_error_line e) = (res, s)"
  shows "on_error P W e (srv, c) =
    (let st = (upd_metrics (inc_bytes_written (length (client_error_line e)))
            (upd_metrics inc_protocol_errors srv),
          c\<lparr>cn_read_buf := drop (i + 2) (cn_read_buf c), cn_response := \<lparr>rw_buf = []\<rparr>,
            cn_pending := None, cn_stream := s\<rparr>)
     in Done (case res of Inl err \<Rightarrow> Failed err st | Inr u \<Rightarrow> Break st))"
  using assms find_crlf_bounds [OF assms(1)]
  by (auto simp: on_error_def conn_find_crlf_eq split_to_def writer_clear_eq send_response_def Let_def
      rw_client_error simp del: rw_buf_simps(6) split: sum.split)

lemma on_error_turn:
  assumes "parse (pf_memchr P) (cn_read_buf c) = Done (Error e)" and "conn_ok (pf_memchr P) c"
  shows "\<exists>f. on_error P W e (srv, c) = Done f \<and> turn_ok contents (pf_memchr P) (srv, c) f \<and> (\<nexists>st. f = Again st)"
proof -
  obtain i where i: "find_crlf (pf_memchr P) (cn_read_buf c) = Some i"
    using assms(1) by (auto simp: parse_def split: option.splits)
  obtain res s where w: "tcp_write_all W (cn_stream c) (client_error_line e) = (res, s)" by fastforce
  from on_error_eq [OF i _ w, of srv] assms(2) show ?thesis
    by (cases res) (auto simp: turn_ok_def conn_ok_def Let_def)
qed

lemma on_need_more_turn:
  assumes "conn_ok (pf_memchr P) c"
  shows "\<exists>c'. on_need_more P (srv, c) = Done (Break (srv, c') :: (_, 'we) flow) \<and>
    turn_ok contents (pf_memchr P) (srv, c) (Break (srv, c') :: (_, 'we) flow) \<and>
    cn_read_buf c' = cn_read_buf c \<and> cn_stream c' = cn_stream c"
  using assms
  by (auto simp: on_need_more_def turn_ok_def conn_ok_def intro!: exI [of _ 0]
      split: sum.split option.split)

lemma process_one_turn:
  assumes ok: "conn_ok (pf_memchr P) c" and len: "length (cn_read_buf c) \<le> isize_max"
  shows "if parse (pf_memchr P) (cn_read_buf c) = Panic then process_one P W (srv, c) = Panic
    else \<exists>f. process_one P W (srv, c) = Done f \<and> turn_ok contents (pf_memchr P) (srv, c) f"
proof (cases "parse (pf_memchr P) (cn_read_buf c)")
  case (Done r)
  note one = process_one_parse [OF ok, of srv]
  show ?thesis
  proof (cases r)
    case (Complete cmd n)
    with Done parse_complete_bounds [OF _ len] have "2 \<le> unat n" "unat n \<le> length (cn_read_buf c)"
      by auto
    from on_complete_turn [OF this] one Done Complete show ?thesis by auto
  next
    case NeedMoreData
    with on_need_more_turn [OF ok, of srv] one Done show ?thesis by auto
  next
    case (Error e)
    with on_error_turn [OF _ ok, of e srv] one Done show ?thesis by auto
  qed
qed (use process_one_parse [OF ok, of srv] in simp)

text \<open>The inner loop comes to an end.\<close>

lemma process_loop_total:
  assumes "conn_ok (pf_memchr P) c" and "length (cn_read_buf c) \<le> isize_max"
  shows "process_loop P W (srv, c) = Some Panic \<and> (\<exists>k. parse (pf_memchr P) (drop k (cn_read_buf c)) = Panic) \<or>
    (\<exists>f. process_loop P W (srv, c) = Some (Done f) \<and> (\<nexists>st. f = Again st) \<and>
       turn_ok contents (pf_memchr P) (srv, c) f)"
  using assms
proof (induction "length (cn_read_buf c)" arbitrary: srv c rule: less_induct)
  case less
  note one = process_one_turn [OF less.prems, of srv]
  show ?case
  proof (cases "process_one P W (srv, c)")
    case Panic
    with one have "parse (pf_memchr P) (drop 0 (cn_read_buf c)) = Panic" by (auto split: if_splits)
    with Panic show ?thesis by (subst process_loop.simps) (auto intro: exI [of _ 0])
  next
    case (Done f)
    with one have t: "turn_ok contents (pf_memchr P) (srv, c) f" by (auto split: if_splits)
    show ?thesis
    proof (cases "\<exists>st. f = Again st")
      case False
      with Done t show ?thesis
        by (subst process_loop.simps) (auto split: flow.split)
    next
      case True
      then obtain srv' c' where f: "f = Again (srv', c')" by auto
      with t obtain k where c': "conn_ok (pf_memchr P) c'" "cn_read_buf c' = drop k (cn_read_buf c)"
          "length (cn_read_buf c') < length (cn_read_buf c)"
          "m_active_connections (srv_metrics srv') = m_active_connections (srv_metrics srv)"
          "srv_kept contents srv srv'"
        by (auto simp: turn_ok_def)
      have unfold: "process_loop P W (srv, c) = process_loop P W (srv', c')"
        using Done f by (subst process_loop.simps) simp
      from less.hyps [OF c'(3,1)] c' less.prems(2)
      have "process_loop P W (srv', c') = Some Panic \<and>
          (\<exists>k'. parse (pf_memchr P) (drop (k' + k) (cn_read_buf c)) = Panic) \<or>
        (\<exists>f. process_loop P W (srv', c') = Some (Done f) \<and> (\<nexists>st. f = Again st) \<and>
          turn_ok contents (pf_memchr P) (srv', c') f)" by (simp add: add.commute)
      then show ?thesis
      proof (elim disjE exE conjE)
        fix f assume "process_loop P W (srv', c') = Some (Done f)" and "\<nexists>st. f = Again st"
          and "turn_ok contents (pf_memchr P) (srv', c') f"
        with turn_ok_trans [OF _ _ c'(2,4,5)] show ?thesis unfolding unfold by blast
      qed (use unfold in auto)
    qed
  qed
qed

end

section \<open>Input the inner loop cannot work off\<close>

context petracache_conn
begin

lemma process_loop_need_more:
  assumes "conn_ok (pf_memchr P) c" and "parse (pf_memchr P) (cn_read_buf c) = Done NeedMoreData"
  shows "\<exists>c'. process_loop P W (srv, c) = Some (Done (Break (srv, c'))) \<and>
    conn_ok (pf_memchr P) c' \<and> cn_read_buf c' = cn_read_buf c \<and> cn_stream c' = cn_stream c"
  using on_need_more_turn [OF assms(1), of srv] process_one_parse [OF assms(1), of srv] assms(2)
  by (subst process_loop.simps) (auto simp: turn_ok_def)

lemma process_loop_error:
  assumes ok: "conn_ok (pf_memchr P) c" and e: "parse (pf_memchr P) (cn_read_buf c) = Done (Error e)"
    and W: "accepts_writes W"
  shows "\<exists>i srv' c'. find_crlf (pf_memchr P) (cn_read_buf c) = Some i \<and>
    process_loop P W (srv, c) = Some (Done (Break (srv', c'))) \<and>
    cn_read_buf c' = drop (i + 2) (cn_read_buf c) \<and> cn_pending c' = None \<and>
    sent (cn_stream c') = sent (cn_stream c) @ client_error_line e \<and>
    srv_storage srv' = srv_storage srv \<and>
    m_protocol_errors (srv_metrics srv') = m_protocol_errors (srv_metrics srv) + 1"
proof -
  obtain i where i: "find_crlf (pf_memchr P) (cn_read_buf c) = Some i"
    using e by (auto simp: parse_def split: option.splits)
  obtain s where w: "tcp_write_all W (cn_stream c) (client_error_line e) = (Inr (), s)"
    using W by (metis accepts_writes_def prod.collapse)
  have "process_one P W (srv, c) = on_error P W e (srv, c)"
    using process_one_parse [OF ok, of srv] e by simp
  with on_error_eq [OF i _ w, of srv] ok write_ok [OF w] i show ?thesis
    by (subst process_loop.simps)
      (auto simp: conn_ok_def Let_def inc_bytes_written_def inc_protocol_errors_def)
qed

lemma process_loop_quit:
  assumes ok: "conn_ok (pf_memchr P) c" and buf: "cn_read_buf c = render Quit @ rest"
    and len: "length (cn_read_buf c) \<le> isize_max"
  shows "\<exists>c'. process_loop P W (srv, c) = Some (Done (Return (srv, c'))) \<and>
    cn_stream c' = cn_stream c \<and> cn_read_buf c' = rest"
proof -
  let ?n = "of_nat (length (render Quit)) :: usize"
  have n: "unat ?n = length (render Quit)"
    using buf len by (simp add: unat_of_nat isize_max_def)
  have "parse (pf_memchr P) (cn_read_buf c) = Done (Complete Quit ?n)"
    using parse_render [of Quit rest] buf len by simp
  then have "process_one P W (srv, c) = on_complete P W Quit ?n (srv, c)"
    using process_one_parse [OF ok, of srv] by simp
  with on_complete_silent [of Quit srv c srv "cn_response c" ?n] ok buf n show ?thesis
    by (subst process_loop.simps) (auto simp: conn_ok_def)
qed

end

section \<open>The end of a connection\<close>

fun event_bytes :: "'re conn_event \<Rightarrow> nat" where
  "event_bytes (Read (Inr b)) = length b"
| "event_bytes _ = 0"

abbreviation received :: "'re conn_event list \<Rightarrow> nat" where
  "received evs \<equiv> sum_list (map event_bytes evs)"

context petracache_conn
begin

text \<open>The task always comes to its next \<open>select!\<close> or to its end, and what it does to the gauge.\<close>

lemma handle_total:
  assumes "conn_ok (pf_memchr P) c" and "length (cn_read_buf c) + received evs \<le> isize_max"
  shows "handle_events P W evs (srv, c) = Some Panic \<or>
    (\<exists>status srv' c'. handle_events P W evs (srv, c) = Some (Done (status, (srv', c'))) \<and>
       conn_ok (pf_memchr P) c' \<and> srv_kept contents srv srv' \<and>
       m_active_connections (srv_metrics srv') =
         m_active_connections (srv_metrics srv) - (if status = Closed then 1 else 0))"
  using assms
proof (induction evs arbitrary: srv c)
  case (Cons ev evs)
  have closed: ?case if "handle_events P W (ev # evs) (srv, c) = Some (Done (close_connection (srv, c)))"
    using that Cons.prems(1) by (auto simp: close_connection_def dec_active_def)
  show ?case
  proof (cases "\<exists>b. ev = Read (Inr b) \<and> b \<noteq> []")
    case False
    then have "handle_events P W (ev # evs) (srv, c) = Some (Done (close_connection (srv, c)))"
      by (cases ev rule: event_bytes.cases) auto
    then show ?thesis by (rule closed)
  next
    case True
    then obtain b where b: "ev = Read (Inr b)" "b \<noteq> []" by blast
    obtain srv0 c0 where rc: "receive b (srv, c) = (srv0, c0)" by fastforce
    have c0: "conn_ok (pf_memchr P) c0" "cn_read_buf c0 = cn_read_buf c @ b"
        "m_active_connections (srv_metrics srv0) = m_active_connections (srv_metrics srv)"
        "srv_kept contents srv srv0"
      using conn_ok_receive [OF Cons.prems(1), of b srv] rc by (auto simp: receive_def)
    have len: "length (cn_read_buf c0) + received evs \<le> isize_max"
      using Cons.prems(2) b c0(2) by simp
    from process_loop_total [OF c0(1), of srv0] len
    consider "process_loop P W (srv0, c0) = Some Panic"
      | f where "process_loop P W (srv0, c0) = Some (Done f)" "\<nexists>st. f = Again st"
        "turn_ok contents (pf_memchr P) (srv0, c0) f" by fastforce
    then show ?thesis
    proof cases
      case 2
      obtain srv1 c1 where st: "flow_state f = (srv1, c1)" by fastforce
      then have c1: "conn_ok (pf_memchr P) c1" "length (cn_read_buf c1) \<le> length (cn_read_buf c0)"
          "m_active_connections (srv_metrics srv1) = m_active_connections (srv_metrics srv)"
          "srv_kept contents srv srv1"
        using 2(3) c0(3,4) srv_kept_trans by (auto simp: turn_ok_def)
      from Cons.IH [OF c1(1), of srv1] c1 len 2 b rc st srv_kept_trans [OF c1(4)] show ?thesis
        by (cases f) (auto simp: Let_def)
    qed (use b rc in simp)
  qed
qed simp

lemma handle_lone_CR:
  assumes "conn_ok (pf_memchr P) c" and "cn_read_buf c = line @ CR # x # rest" and "CR \<notin> set line"
    and "x \<noteq> LF" and "[] \<notin> set chunks"
  shows "\<exists>srv' c'. handle_events P W (map (\<lambda>b. Read (Inr b)) chunks) (srv, c) =
      Some (Done (Waiting, (srv', c'))) \<and>
    cn_stream c' = cn_stream c \<and> cn_read_buf c' = cn_read_buf c @ concat chunks \<and>
    srv_storage srv' = srv_storage srv"
  using assms
proof (induction chunks arbitrary: srv c rest)
  case (Cons b chunks)
  obtain srv0 c0 where rc: "receive b (srv, c) = (srv0, c0)" by fastforce
  have c0: "conn_ok (pf_memchr P) c0" "cn_read_buf c0 = line @ CR # x # (rest @ b)"
      "cn_stream c0 = cn_stream c" "srv_storage srv0 = srv_storage srv"
    using conn_ok_receive [OF Cons.prems(1), of b srv] rc Cons.prems(2) by (auto simp: receive_def)
  from process_loop_need_more [OF c0(1), of srv0] parse_lone_CR [OF Cons.prems(3,4)] c0(2)
  obtain c1 where c1: "process_loop P W (srv0, c0) = Some (Done (Break (srv0, c1)))"
      "conn_ok (pf_memchr P) c1" "cn_read_buf c1 = line @ CR # x # (rest @ b)"
      "cn_stream c1 = cn_stream c0" by auto
  from Cons.IH [OF c1(2,3) Cons.prems(3,4), of srv0] Cons.prems c1 c0 rc show ?case by auto
qed simp

end

section \<open>Properties\<close>

text \<open>A stream whose peer reads everything, and short names for the closed statements.\<close>

definition ok_stream :: "(bytes, unit) tcp_stream" where
  "ok_stream = \<lparr>tcp_write_all = (\<lambda>out b. (Inr (), out @ b))\<rparr>"

lemmas [run_simps] = ok_stream_def

lemma ok_stream_accepts: "accepts_writes ok_stream"
  by (simp add: accepts_writes_def ok_stream_def)

interpretation ok_tcp: tcp ok_stream "\<lambda>out. out"
  by unfold_locales (auto simp: ok_stream_def)

interpretation ok_conn: petracache_conn "ref_platform clk" fst ok_stream "\<lambda>out. out" for clk
  by unfold_locales

definition conn_with :: "bytes \<Rightarrow> bytes connection" where
  "conn_with b = \<lparr>cn_read_buf = b, cn_response = \<lparr>rw_buf = []\<rparr>, cn_pending = None, cn_stream = []\<rparr>"

lemma conn_with_ok: "conn_ok mc (conn_with b)"
  by (simp add: conn_ok_def conn_with_def)

lemma conn_with_sel [simp]: "cn_read_buf (conn_with b) = b" "cn_stream (conn_with b) = []"
  by (simp_all add: conn_with_def)

text \<open>
  C21: The inner loop ends: from any state the task can be in, the loop that works off the buffer
  comes to a break, to the return of \<open>quit\<close>, to a write error or to a panic; and it panics only on
  input on which the parser does.  The buffer is as large as memory allows.
\<close>

theorem inner_loop_terminates:
  assumes "petracache_conn P contents W sent" and "conn_ok (pf_memchr P) c"
    and "length (cn_read_buf c) \<le> isize_max"
  shows "process_loop P W (srv, c) = Some Panic \<and>
      (\<exists>k. parse (pf_memchr P) (drop k (cn_read_buf c)) = Panic) \<or>
    (\<exists>st. process_loop P W (srv, c) \<in> {Some (Done (Break st)), Some (Done (Return st))} \<or>
      (\<exists>e. process_loop P W (srv, c) = Some (Done (Failed e st))))"
  using petracache_conn.process_loop_total [OF assms, of srv]
proof (elim disjE exE conjE)
  fix f assume "process_loop P W (srv, c) = Some (Done f)" and "\<nexists>st. f = Again st"
  then show ?thesis by (cases f) auto
qed blast

theorem inner_loop_terminates_witness:
  "\<exists>r. process_loop (ref_platform (\<lambda>i. 0)) ok_stream
     (ref_server mem_empty, conn_with (bs ''get a'' @ crlf @ bs ''x'' @ crlf)) = Some r"
proof -
  have len: "length (cn_read_buf (conn_with (bs ''get a'' @ crlf @ bs ''x'' @ crlf))) \<le> isize_max"
    by (simp add: isize_max_def)
  from inner_loop_terminates [OF ok_conn.petracache_conn_axioms conn_with_ok len] show ?thesis by blast
qed

text \<open>
  A connection always gets back to its \<open>select!\<close> or ends, and what it does to the gauge of active
  connections: reaching the end of the function (cancellation, end of stream or read error) takes
  one off, leaving by \<open>quit\<close> or by a write error takes nothing off.
\<close>

theorem task_returns_and_gauge:
  assumes "petracache_conn P contents W sent" and "received evs \<le> isize_max"
  shows "handle P W evs srv stream = Some Panic \<or>
    (\<exists>status srv' c'. handle P W evs srv stream = Some (Done (status, (srv', c'))) \<and>
       m_active_connections (srv_metrics srv') =
         m_active_connections (srv_metrics srv) - (if status = Closed then 1 else 0))"
proof -
  have "length (cn_read_buf (conn_new srv stream)) + received evs \<le> isize_max"
    using assms(2) by (simp add: conn_new_def)
  from petracache_conn.handle_total [OF assms(1) conn_ok_new this] show ?thesis
    unfolding handle_def by blast
qed

theorem task_returns_and_gauge_witness:
  "\<exists>status srv' c'. handle (ref_platform (\<lambda>i. 0)) ok_stream
      [Read (Inr (bs ''quit'' @ crlf)) :: unit conn_event] (ref_server mem_empty) [] =
        Some (Done (status, (srv', c'))) \<and>
      status = Quitted \<and> m_active_connections (srv_metrics srv') = 0"
proof -
  let ?evs = "[Read (Inr (bs ''quit'' @ crlf)) :: unit conn_event]"
  let ?h = "handle (ref_platform (\<lambda>i. 0)) ok_stream ?evs (ref_server mem_empty) []"
  have "received ?evs \<le> isize_max" by (simp add: isize_max_def)
  note t = task_returns_and_gauge [OF ok_conn.petracache_conn_axioms this, of "\<lambda>i. 0" "ref_server mem_empty" "[]"]
  have h: "\<exists>st. ?h = Some (Done (Quitted, st))" by (simp add: run_simps)
  have z: "m_active_connections (srv_metrics (ref_server mem_empty)) = 0"
    by (simp add: ref_server_def metrics_new_def)
  from t h z show ?thesis by auto
qed

text \<open>
  C35: Recovery from a protocol error: when the buffer starts with a line the parser rejects, the
  client gets the \<open>CLIENT_ERROR\<close> line, exactly one more protocol error is counted, the storage is not
  touched, and the rest of the buffer after that line's end is kept.  The loop then breaks: complete
  commands that were already in the buffer wait for the next read.
\<close>

theorem protocol_error_recovery:
  assumes "petracache_conn P contents W sent" and "conn_ok (pf_memchr P) c"
    and "parse (pf_memchr P) (cn_read_buf c) = Done (Error e)" and "accepts_writes W"
  shows "\<exists>i srv' c'. find_crlf (pf_memchr P) (cn_read_buf c) = Some i \<and>
    process_loop P W (srv, c) = Some (Done (Break (srv', c'))) \<and>
    cn_read_buf c' = drop (i + 2) (cn_read_buf c) \<and> cn_pending c' = None \<and>
    sent (cn_stream c') =
      sent (cn_stream c) @ bs ''CLIENT_ERROR '' @ protocol_error_to_string e @ crlf \<and>
    srv_storage srv' = srv_storage srv \<and>
    m_protocol_errors (srv_metrics srv') = m_protocol_errors (srv_metrics srv) + 1"
  using petracache_conn.process_loop_error [OF assms, of srv] unfolding client_error_line_def .

theorem protocol_error_recovery_witness:
  "\<exists>srv' c'. process_loop (ref_platform (\<lambda>i. 0)) ok_stream
      (ref_server mem_empty, conn_with (bs ''bad'' @ crlf @ bs ''version'' @ crlf)) =
        Some (Done (Break (srv', c'))) \<and> cn_read_buf c' = bs ''version'' @ crlf"
proof -
  let ?c = "conn_with (bs ''bad'' @ crlf @ bs ''version'' @ crlf)"
  have e: "parse (pf_memchr (ref_platform (\<lambda>i. 0))) (cn_read_buf ?c) =
      Done (Error (InvalidCommand (bs ''bad'')))"
    by (simp add: run_simps)
  have i: "find_crlf (pf_memchr (ref_platform (\<lambda>i. 0))) (cn_read_buf ?c) = Some 3"
    by (simp add: run_simps)
  have d: "drop (3 + 2) (cn_read_buf ?c) = bs ''version'' @ crlf" by (simp add: bs_def)
  from protocol_error_recovery [OF ok_conn.petracache_conn_axioms conn_with_ok e ok_stream_accepts,
      of "ref_server mem_empty"] i d
  show ?thesis by auto
qed

text \<open>
  C34: A carriage return that does not end a line stalls its connection: once the first carriage
  return in the buffer is followed by anything but a line feed, no bytes that arrive later make the
  server answer, act or drop the buffer; it only grows.
\<close>

theorem lone_CR_stalls:
  assumes "petracache_conn P contents W sent" and "conn_ok (pf_memchr P) c"
    and "cn_read_buf c = line @ CR # x # rest" and "CR \<notin> set line" and "x \<noteq> LF"
    and "[] \<notin> set chunks"
  shows "\<exists>srv' c'. handle_events P W (map (\<lambda>b. Read (Inr b)) chunks) (srv, c) =
      Some (Done (Waiting, (srv', c'))) \<and>
    cn_stream c' = cn_stream c \<and> cn_read_buf c' = cn_read_buf c @ concat chunks \<and>
    srv_storage srv' = srv_storage srv"
  using petracache_conn.handle_lone_CR [OF assms] .

theorem lone_CR_stalls_witness:
  "\<exists>srv' c'. handle_events (ref_platform (\<lambda>i. 0)) ok_stream [Read (Inr (bs ''get a'' @ crlf))]
      (ref_server mem_empty, conn_with [97, CR, 98]) = Some (Done (Waiting, (srv', c'))) \<and>
    cn_stream c' = []"
proof -
  have b: "cn_read_buf (conn_with [97, CR, 98]) = [97] @ CR # 98 # []" by simp
  from lone_CR_stalls [OF ok_conn.petracache_conn_axioms conn_with_ok b, of "[bs ''get a'' @ crlf]"
      "\<lambda>i. 0" "ref_server mem_empty"]
  show ?thesis by auto
qed

text \<open>
  \<open>quit\<close> ends the connection at once: nothing is sent, nothing that follows in the buffer is
  looked at, and the server, its metrics included, is as before.
\<close>

theorem quit_ends_connection:
  assumes "petracache_conn P contents W sent" and "conn_ok (pf_memchr P) c"
    and "cn_read_buf c = render Quit @ rest" and "length (cn_read_buf c) \<le> isize_max"
  shows "\<exists>c'. process_loop P W (srv, c) = Some (Done (Return (srv, c'))) \<and>
    cn_stream c' = cn_stream c \<and> cn_read_buf c' = rest"
  using petracache_conn.process_loop_quit [OF assms] .

theorem quit_ends_connection_witness:
  "\<exists>c'. process_loop (ref_platform (\<lambda>i. 0)) ok_stream
      (ref_server mem_empty, conn_with (render Quit @ render Version)) =
        Some (Done (Return (ref_server mem_empty, c'))) \<and> cn_stream c' = []"
proof -
  have "length (cn_read_buf (conn_with (render Quit @ render Version))) \<le> isize_max"
    by (simp add: isize_max_def render_def)
  from quit_ends_connection [OF ok_conn.petracache_conn_axioms conn_with_ok _ this, of "render Version"
      "\<lambda>i. 0" "ref_server mem_empty"] show ?thesis by auto
qed

end
