(* ===== verification/Server.thy ===== *)
theory Server
  imports Connection
begin

text \<open>
  The TCP server of \<open>src/server/mod.rs\<close>: its construction, the admission of connections, the accept
  loop, and the whole system of accept loop, connection tasks and background compaction as a step
  relation.  The semaphore of the \<open>tokio\<close> crate is a parameter with its laws in the locale
  \<open>semaphore\<close>; the listener is the sequence of results its \<open>accept\<close> gives.
\<close>

section \<open>Definitions\<close>

text \<open>
  \<open>sem_new\<close> panics on too many permits; \<open>sem_try_acquire\<close> gives the semaphore after a permit was
  taken, or nothing; \<open>sem_release\<close> is the drop of a permit.
\<close>

record 'sem semaphore_crate =
  sem_new :: "usize \<Rightarrow> 'sem outcome"
  sem_try_acquire :: "'sem \<Rightarrow> 'sem option"
  sem_release :: "'sem \<Rightarrow> 'sem"

definition server_new ::
    "'sem semaphore_crate \<Rightarrow> server_config \<Rightarrow> 'db storage \<Rightarrow> metrics \<Rightarrow> bool \<Rightarrow>
      ('db, 'sem) server outcome" where
  "server_new S cfg storage metrics cancelled =
     (case sem_new S (sc_max_connections cfg) of
        Panic \<Rightarrow> Panic
      | Done connection_semaphore \<Rightarrow>
          Done \<lparr>srv_config = cfg, srv_storage = storage, srv_metrics = metrics,
            srv_semaphore = connection_semaphore, srv_cancelled = cancelled\<rparr>)"

definition inc_total_connections :: "metrics \<Rightarrow> metrics" where
  "inc_total_connections m = m\<lparr>m_total_connections := m_total_connections m + 1\<rparr>"

definition inc_active :: "metrics \<Rightarrow> metrics" where
  "inc_active m = m\<lparr>m_active_connections := m_active_connections m + 1\<rparr>"

definition inc_rejected :: "metrics \<Rightarrow> metrics" where
  "inc_rejected m = m\<lparr>m_rejected_connections := m_rejected_connections m + 1\<rparr>"

text \<open>
  The second component says whether a connection task is spawned; if not, the stream is dropped.  A
  failing \<open>set_nodelay\<close> is only logged.
\<close>

definition handle_new_connection ::
    "'sem semaphore_crate \<Rightarrow> ('db, 'sem) server \<Rightarrow> ('db, 'sem) server \<times> bool" where
  "handle_new_connection S srv =
     (case sem_try_acquire S (srv_semaphore srv) of
        Some sem \<Rightarrow>
          (let srv = srv\<lparr>srv_semaphore := sem\<rparr>;
               srv = upd_metrics inc_total_connections srv
           in (upd_metrics inc_active srv, True))
      | None \<Rightarrow> (upd_metrics inc_rejected srv, False))"

datatype ('st, 'ae) accept_event = Shutdown | Accept "'ae + 'st"

text \<open>
  The accept loop on the events its \<open>select!\<close> meets: the server, the streams that got a task, and
  whether the loop has ended.
\<close>

fun accept_loop ::
    "'sem semaphore_crate \<Rightarrow> ('st, 'ae) accept_event list \<Rightarrow> ('db, 'sem) server \<Rightarrow> 'st list \<Rightarrow>
      ('db, 'sem) server \<times> 'st list \<times> bool" where
  "accept_loop S [] srv spawned = (srv, spawned, False)"
| "accept_loop S (Shutdown # evs) srv spawned = (srv, spawned, True)"
| "accept_loop S (Accept (Inl e) # evs) srv spawned = accept_loop S evs srv spawned"
| "accept_loop S (Accept (Inr stream) # evs) srv spawned =
     (let (srv, ok) = handle_new_connection S srv
      in accept_loop S evs srv (if ok then spawned @ [stream] else spawned))"

text \<open>
  \<open>Server::run\<close>: the address is parsed and bound first, and either error is passed on.
\<close>

definition run_server ::
    "'sem semaphore_crate \<Rightarrow> (str \<Rightarrow> 'x + 'addr) \<Rightarrow> ('addr \<Rightarrow> 'x option) \<Rightarrow>
      ('st, 'ae) accept_event list \<Rightarrow> ('db, 'sem) server \<Rightarrow>
      'x + (('db, 'sem) server \<times> 'st list \<times> bool)" where
  "run_server S parse_addr bind_err evs srv =
     (case parse_addr (sc_listen_addr (srv_config srv)) of
        Inl e \<Rightarrow> Inl e
      | Inr addr \<Rightarrow>
          (case bind_err addr of
             Some e \<Rightarrow> Inl e
           | None \<Rightarrow> Inr (accept_loop S evs srv [])))"

lemmas server_defs = server_new_def inc_total_connections_def inc_active_def inc_rejected_def
  handle_new_connection_def run_server_def

lemmas [run_simps] = server_defs

section \<open>The semaphore\<close>

text \<open>The documented bound of \<open>Semaphore::new\<close>, \<open>usize::MAX >> 3\<close>.\<close>

definition MAX_PERMITS :: nat where
  "MAX_PERMITS = 2 ^ 61 - 1"

locale semaphore =
  fixes S :: "'sem semaphore_crate" and permits :: "'sem \<Rightarrow> nat"
  assumes sem_new_ok: "unat n \<le> MAX_PERMITS \<Longrightarrow> \<exists>s. sem_new S n = Done s \<and> permits s = unat n"
    and sem_new_panic: "MAX_PERMITS < unat n \<Longrightarrow> sem_new S n = Panic"
    and sem_acquire: "sem_try_acquire S s = Some s' \<Longrightarrow> permits s = permits s' + 1"
    and sem_exhausted: "sem_try_acquire S s = None \<longleftrightarrow> permits s = 0"
    and sem_release: "permits (sem_release S s) = permits s + 1"
begin

lemma handle_new_connection_cases:
  "handle_new_connection S srv = (srv', ok) \<Longrightarrow>
     (if ok then permits (srv_semaphore srv) = Suc (permits (srv_semaphore srv'))
      else permits (srv_semaphore srv) = 0 \<and> permits (srv_semaphore srv') = 0) \<and>
     m_active_connections (srv_metrics srv') =
       m_active_connections (srv_metrics srv) + (if ok then 1 else 0) \<and>
     m_total_connections (srv_metrics srv') =
       m_total_connections (srv_metrics srv) + (if ok then 1 else 0) \<and>
     m_rejected_connections (srv_metrics srv') =
       m_rejected_connections (srv_metrics srv) + (if ok then 0 else 1) \<and>
     srv_storage srv' = srv_storage srv \<and> srv_config srv' = srv_config srv \<and>
     srv_cancelled srv' = srv_cancelled srv"
  using sem_acquire [of "srv_semaphore srv"] sem_exhausted [of "srv_semaphore srv"]
  by (auto simp: server_defs Let_def split: option.splits)

end

text \<open>The connections a sequence of events offers before the shutdown.\<close>

fun accepted :: "('st, 'ae) accept_event list \<Rightarrow> 'st list" where
  "accepted [] = []"
| "accepted (Shutdown # evs) = []"
| "accepted (Accept (Inl e) # evs) = accepted evs"
| "accepted (Accept (Inr s) # evs) = s # accepted evs"

context semaphore
begin

lemma accept_loop_admits:
  "accept_loop S evs srv spawned = (srv', spawned', stopped) \<Longrightarrow>
     (let new = take (permits (srv_semaphore srv)) (accepted evs) in
      spawned' = spawned @ new \<and>
      m_total_connections (srv_metrics srv') = m_total_connections (srv_metrics srv) + length new \<and>
      m_rejected_connections (srv_metrics srv') + length new =
        m_rejected_connections (srv_metrics srv) + length (accepted evs) \<and>
      (stopped \<longleftrightarrow> Shutdown \<in> set evs))"
proof (induction evs arbitrary: srv spawned rule: accepted.induct)
  case (4 s evs)
  obtain srv1 ok where h: "handle_new_connection S srv = (srv1, ok)" by fastforce
  have "accept_loop S evs srv1 (if ok then spawned @ [s] else spawned) = (srv', spawned', stopped)"
    using 4(2) h by simp
  note IH = 4(1) [OF this]
  note c = handle_new_connection_cases [OF h]
  show ?case
  proof (cases ok)
    case True
    then have "permits (srv_semaphore srv) = Suc (permits (srv_semaphore srv1))"
        "m_total_connections (srv_metrics srv1) = Suc (m_total_connections (srv_metrics srv))"
        "m_rejected_connections (srv_metrics srv1) = m_rejected_connections (srv_metrics srv)"
      using c by simp_all
    with IH True show ?thesis by (simp add: Let_def del: length_take)
  next
    case False
    then have "permits (srv_semaphore srv) = 0" "permits (srv_semaphore srv1) = 0"
        "m_total_connections (srv_metrics srv1) = m_total_connections (srv_metrics srv)"
        "m_rejected_connections (srv_metrics srv1) = Suc (m_rejected_connections (srv_metrics srv))"
      using c by simp_all
    with IH False show ?thesis by (simp add: Let_def)
  qed
qed auto

end

definition nat_semaphore :: "nat semaphore_crate" where
  "nat_semaphore =
     \<lparr>sem_new = (\<lambda>n. if unat n \<le> MAX_PERMITS then Done (unat n) else Panic),
      sem_try_acquire = (\<lambda>s. if s = 0 then None else Some (s - 1)), sem_release = Suc\<rparr>"

lemmas [run_simps] = nat_semaphore_def MAX_PERMITS_def

interpretation nat_sem: semaphore nat_semaphore id
  by unfold_locales (auto simp: nat_semaphore_def split: if_splits)

section \<open>The running system\<close>

text \<open>
  The server with its live connection tasks.  \<open>sys_early\<close> counts the tasks that left by \<open>quit\<close> or by
  a write error; the source keeps no such number.  A step is one accepted connection, one event of
  one task, a compaction, or the cancellation; which comes next is left open.  A task that ends drops
  its permit.
\<close>

record ('db, 'sem, 'st) system =
  sys_srv :: "('db, 'sem) server"
  sys_conns :: "'st connection list"
  sys_accepting :: bool
  sys_early :: nat

definition finish_task ::
    "'sem semaphore_crate \<Rightarrow> nat \<Rightarrow> bool \<Rightarrow> ('db, 'sem) server \<Rightarrow> ('db, 'sem, 'st) system \<Rightarrow>
      ('db, 'sem, 'st) system" where
  "finish_task S i early srv sy =
     sy\<lparr>sys_srv := srv\<lparr>srv_semaphore := sem_release S (srv_semaphore srv)\<rparr>,
        sys_conns := take i (sys_conns sy) @ drop (Suc i) (sys_conns sy),
        sys_early := sys_early sy + (if early then 1 else 0)\<rparr>"

definition event_possible :: "'re conn_event \<Rightarrow> ('db, 'sem) server \<Rightarrow> 'st connection \<Rightarrow> bool" where
  "event_possible ev srv c \<longleftrightarrow>
     (ev = Cancelled \<longrightarrow> srv_cancelled srv) \<and> length (cn_read_buf c) + event_bytes ev \<le> isize_max"

inductive sys_step ::
    "('db, 'e) platform \<Rightarrow> ('st, 'we) tcp_stream \<Rightarrow> 'sem semaphore_crate \<Rightarrow> 're itself \<Rightarrow>
      ('db, 'sem, 'st) system \<Rightarrow> ('db, 'sem, 'st) system \<Rightarrow> bool" for P W S TY where
  step_accept:
    "sys_accepting sy \<Longrightarrow> handle_new_connection S (sys_srv sy) = (srv, ok) \<Longrightarrow>
       sys_step P W S TY sy (sy\<lparr>sys_srv := srv,
         sys_conns := (if ok then sys_conns sy @ [conn_new srv stream] else sys_conns sy)\<rparr>)"
| step_task:
    "i < length (sys_conns sy) \<Longrightarrow> event_possible (ev :: 're conn_event) (sys_srv sy) (sys_conns sy ! i) \<Longrightarrow>
       handle_events P W [ev] (sys_srv sy, sys_conns sy ! i) = Some (Done (Waiting, (srv, c))) \<Longrightarrow>
       sys_step P W S TY sy (sy\<lparr>sys_srv := srv, sys_conns := (sys_conns sy)[i := c]\<rparr>)"
| step_finish:
    "i < length (sys_conns sy) \<Longrightarrow> event_possible (ev :: 're conn_event) (sys_srv sy) (sys_conns sy ! i) \<Longrightarrow>
       handle_events P W [ev] (sys_srv sy, sys_conns sy ! i) = Some (Done (status, (srv, c))) \<Longrightarrow>
       status \<noteq> Waiting \<Longrightarrow>
       sys_step P W S TY sy (finish_task S i (status \<noteq> Closed) srv sy)"
| step_compact:
    "sys_step P W S TY sy (sy\<lparr>sys_srv := upd_storage
       (rocks_compact (pf_rocksdb P) (pf_clock P) (srv_storage (sys_srv sy))) (sys_srv sy)\<rparr>)"
| step_cancel: "sys_step P W S TY sy (sy\<lparr>sys_srv := (sys_srv sy)\<lparr>srv_cancelled := True\<rparr>\<rparr>)"
| step_stop: "srv_cancelled (sys_srv sy) \<Longrightarrow> sys_step P W S TY sy (sy\<lparr>sys_accepting := False\<rparr>)"

inductive_cases sys_step_cases: "sys_step P W S TY sy sy'"

definition sys_init :: "('db, 'sem) server \<Rightarrow> ('db, 'sem, 'st) system" where
  "sys_init srv = \<lparr>sys_srv = srv, sys_conns = [], sys_accepting = True, sys_early = 0\<rparr>"

text \<open>The states a server started by \<open>Server::new\<close> with fresh metrics can get into.\<close>

inductive sys_reachable ::
    "('db, 'e) platform \<Rightarrow> ('st, 'we) tcp_stream \<Rightarrow> 'sem semaphore_crate \<Rightarrow> 're itself \<Rightarrow> server_config \<Rightarrow>
      'db storage \<Rightarrow> ('db, 'sem, 'st) system \<Rightarrow> bool" for P W S TY cfg storage where
  reach_init:
    "server_new S cfg storage metrics_new cancelled = Done srv \<Longrightarrow>
       sys_reachable P W S TY cfg storage (sys_init srv)"
| reach_step:
    "sys_reachable P W S TY cfg storage sy \<Longrightarrow> sys_step P W S TY sy sy' \<Longrightarrow>
       sys_reachable P W S TY cfg storage sy'"

section \<open>Invariants of the running system\<close>

definition sys_inv ::
    "('sem \<Rightarrow> nat) \<Rightarrow> ('db \<Rightarrow> bytes \<Rightarrow> bytes option) \<Rightarrow> memchr \<Rightarrow> server_config \<Rightarrow>
      ('db, 'sem, 'st) system \<Rightarrow> bool" where
  "sys_inv permits contents mc cfg sy \<longleftrightarrow>
     srv_config (sys_srv sy) = cfg \<and>
     permits (srv_semaphore (sys_srv sy)) + length (sys_conns sy) = unat (sc_max_connections cfg) \<and>
     m_active_connections (srv_metrics (sys_srv sy)) = int (length (sys_conns sy) + sys_early sy) \<and>
     list_all (conn_ok mc) (sys_conns sy) \<and>
     entries_wf (srv_contents contents (sys_srv sy))"

locale petracache_system =
  petracache_conn P contents W sent + semaphore S permits
  for P :: "('db, 'e) platform" and contents and W :: "('st, 'we) tcp_stream" and sent
    and S :: "'sem semaphore_crate" and permits
begin

lemma sys_inv_init:
  assumes "server_new S cfg storage metrics_new cancelled = Done srv"
    and "entries_wf (contents (st_db storage))"
  shows "sys_inv permits contents mc cfg (sys_init srv)"
proof -
  obtain s where s: "sem_new S (sc_max_connections cfg) = Done s"
    using assms(1) by (auto simp: server_new_def split: outcome.splits)
  with sem_new_ok [of "sc_max_connections cfg"] sem_new_panic [of "sc_max_connections cfg"]
  have "permits s = unat (sc_max_connections cfg)" by (metis not_le outcome.distinct(1) outcome.inject)
  with assms s show ?thesis
    by (auto simp: server_new_def sys_inv_def sys_init_def metrics_new_def)
qed

lemma sys_inv_task:
  assumes inv: "sys_inv permits contents (pf_memchr P) cfg sy" and i: "i < length (sys_conns sy)"
    and ev: "event_possible ev (sys_srv sy) (sys_conns sy ! i)"
    and h: "handle_events P W [ev] (sys_srv sy, sys_conns sy ! i) = Some (Done (status, (srv, c)))"
  shows "conn_ok (pf_memchr P) c \<and> srv_kept contents (sys_srv sy) srv \<and>
    m_active_connections (srv_metrics srv) =
      int (length (sys_conns sy) + sys_early sy) - (if status = Closed then 1 else 0)"
proof -
  have "conn_ok (pf_memchr P) (sys_conns sy ! i)"
    using inv i by (simp add: sys_inv_def list_all_length)
  from handle_total [OF this, of "[ev]" "sys_srv sy"] ev h inv show ?thesis
    by (auto simp: event_possible_def sys_inv_def)
qed

lemma sys_inv_step:
  assumes "sys_step P W S TY sy sy'" and inv: "sys_inv permits contents (pf_memchr P) cfg sy"
  shows "sys_inv permits contents (pf_memchr P) cfg sy'"
  using assms(1)
proof cases
  case (step_accept srv ok stream)
  show ?thesis
    using handle_new_connection_cases [OF step_accept(3)] inv
    unfolding step_accept(1) by (cases ok) (simp_all add: sys_inv_def conn_ok_new)
next
  case (step_task i ev srv c)
  show ?thesis
    using sys_inv_task [OF inv step_task(2-4)] inv step_task(2)
    unfolding step_task(1)
    by (simp add: sys_inv_def srv_kept_def list_all_length nth_list_update)
next
  case (step_finish i ev status srv c)
  have "list_all (conn_ok (pf_memchr P)) (take i (sys_conns sy) @ drop (Suc i) (sys_conns sy))"
    using inv by (auto simp: sys_inv_def list_all_iff dest: in_set_takeD in_set_dropD)
  then show ?thesis
    using sys_inv_task [OF inv step_finish(2-4)] inv step_finish(2)
    unfolding step_finish(1)
    by (auto simp: sys_inv_def srv_kept_def finish_task_def sem_release)
next
  case step_compact
  with inv show ?thesis by (auto simp: sys_inv_def intro: compact_wf)
qed (use inv in \<open>auto simp: sys_inv_def\<close>)

lemma sys_reachable_inv:
  assumes "sys_reachable P W S TY cfg storage sy" and wf: "entries_wf (contents (st_db storage))"
  shows "sys_inv permits contents (pf_memchr P) cfg sy"
  using assms(1)
  by (induction rule: sys_reachable.induct) (auto intro: sys_inv_init [OF _ wf] sys_inv_step)

end

interpretation ref_system: petracache_system "ref_platform clk" fst mem_stream fst nat_semaphore id for clk
  by unfold_locales

section \<open>Properties\<close>

interpretation ok_system: petracache_system "ref_platform clk" fst ok_stream "\<lambda>out. out" nat_semaphore id for clk
  by unfold_locales

text \<open>A running reference system with one accepted connection, for the closed statements.\<close>

definition small_config :: server_config where
  "small_config = server_config_default\<lparr>sc_max_connections := 2\<rparr>"

definition small_server :: "nat \<Rightarrow> nat \<Rightarrow> (mem_db, nat) server" where
  "small_server free live =
     \<lparr>srv_config = small_config, srv_storage = fresh_storage mem_empty,
      srv_metrics = metrics_new\<lparr>m_active_connections := int live, m_total_connections := live\<rparr>,
      srv_semaphore = free, srv_cancelled = False\<rparr>"

definition small_system :: "(mem_db, nat, bytes) system" where
  "small_system = \<lparr>sys_srv = small_server 1 1, sys_conns = [conn_new (small_server 1 1) []],
     sys_accepting = True, sys_early = 0\<rparr>"

lemma small_system_reachable:
  "sys_reachable (ref_platform (\<lambda>i. 0)) ok_stream nat_semaphore TYPE(unit) small_config
     (fresh_storage mem_empty) small_system"
proof -
  let ?P = "ref_platform (\<lambda>i. 0)"
  have "server_new nat_semaphore small_config (fresh_storage mem_empty) metrics_new False =
      Done (small_server 2 0)"
    by (simp add: server_new_def nat_semaphore_def small_config_def small_server_def MAX_PERMITS_def
        metrics_new_def)
  then have init: "sys_reachable ?P ok_stream nat_semaphore TYPE(unit) small_config
      (fresh_storage mem_empty) (sys_init (small_server 2 0) :: (mem_db, nat, bytes) system)"
    by (rule reach_init)
  have "handle_new_connection nat_semaphore (small_server 2 0) = (small_server 1 1, True)"
    by (simp add: run_simps small_server_def)
  then have "sys_step ?P ok_stream nat_semaphore TYPE(unit) (sys_init (small_server 2 0)) small_system"
    using step_accept [of "sys_init (small_server 2 0) :: (mem_db, nat, bytes) system" nat_semaphore
        "small_server 1 1" True ?P ok_stream "TYPE(unit)" "[]"]
    by (simp add: sys_init_def small_system_def)
  with init show ?thesis by (rule reach_step)
qed

lemma fresh_wf: "entries_wf (fst (st_db (fresh_storage mem_empty)))"
  by (simp add: fresh_storage_def mem_empty_def entries_wf_def)

text \<open>
  C14: The connection limit holds: in every state the running server can reach, the live connections
  and the free permits of the semaphore add up to the configured maximum, so there are never more
  connections than configured and no permit is lost, however connections end.
\<close>

theorem connection_limit:
  assumes "petracache_system P contents W sent S permits"
    and "sys_reachable P W S TY cfg storage sy" and "entries_wf (contents (st_db storage))"
  shows "permits (srv_semaphore (sys_srv sy)) + length (sys_conns sy) = unat (sc_max_connections cfg) \<and>
    length (sys_conns sy) \<le> unat (sc_max_connections cfg)"
  using petracache_system.sys_reachable_inv [OF assms] by (auto simp: sys_inv_def)

theorem connection_limit_witness:
  "id (srv_semaphore (sys_srv small_system)) + length (sys_conns small_system) =
     unat (sc_max_connections small_config) \<and>
   length (sys_conns small_system) \<le> unat (sc_max_connections small_config)"
  by (rule connection_limit [OF ok_system.petracache_system_axioms small_system_reachable fresh_wf])

text \<open>
  C28: What the gauge of active connections shows: in every reachable state it is the number of live
  connections plus the number of connections that have left by \<open>quit\<close> or by a failed write.  It never
  shows too few, and it is exact only while no connection has left that way.
\<close>

theorem active_gauge_value:
  assumes "petracache_system P contents W sent S permits"
    and "sys_reachable P W S TY cfg storage sy" and "entries_wf (contents (st_db storage))"
  shows "m_active_connections (srv_metrics (sys_srv sy)) = int (length (sys_conns sy) + sys_early sy)"
  using petracache_system.sys_reachable_inv [OF assms] by (simp add: sys_inv_def)

theorem active_gauge_value_witness:
  "m_active_connections (srv_metrics (sys_srv small_system)) =
     int (length (sys_conns small_system) + sys_early small_system)"
  by (rule active_gauge_value [OF ok_system.petracache_system_axioms small_system_reachable fresh_wf])

text \<open>
  C15: Admission is exact: in every reachable state, a new connection is given a task precisely when
  fewer connections are live than configured; otherwise it is dropped and counted as rejected, and
  nothing else changes.
\<close>

theorem admission_exact:
  assumes "petracache_system P contents W sent S permits"
    and "sys_reachable P W S TY cfg storage sy" and "entries_wf (contents (st_db storage))"
    and "handle_new_connection S (sys_srv sy) = (srv', ok)"
  shows "(ok \<longleftrightarrow> length (sys_conns sy) < unat (sc_max_connections cfg)) \<and>
    m_total_connections (srv_metrics srv') + m_rejected_connections (srv_metrics srv') =
      m_total_connections (srv_metrics (sys_srv sy)) +
      m_rejected_connections (srv_metrics (sys_srv sy)) + 1 \<and>
    (\<not> ok \<longrightarrow> srv' = upd_metrics inc_rejected (sys_srv sy))"
proof -
  have sem: "semaphore S permits" using assms(1) by (simp add: petracache_system_def)
  have "permits (srv_semaphore (sys_srv sy)) + length (sys_conns sy) = unat (sc_max_connections cfg)"
    using petracache_system.sys_reachable_inv [OF assms(1-3)] by (simp add: sys_inv_def)
  moreover have "\<not> ok \<longrightarrow> srv' = upd_metrics inc_rejected (sys_srv sy)"
    using assms(4) by (auto simp: handle_new_connection_def split: option.splits)
  moreover note c = semaphore.handle_new_connection_cases [OF sem assms(4)]
  have "m_total_connections (srv_metrics srv') + m_rejected_connections (srv_metrics srv') =
      m_total_connections (srv_metrics (sys_srv sy)) +
      m_rejected_connections (srv_metrics (sys_srv sy)) + 1"
    using c by (cases ok) auto
  moreover have "ok \<longleftrightarrow> 0 < permits (srv_semaphore (sys_srv sy))" using c by (cases ok) auto
  ultimately show ?thesis by auto
qed

theorem admission_exact_witness:
  "handle_new_connection nat_semaphore (sys_srv small_system) = (small_server 0 2, True) \<and>
   length (sys_conns small_system) < unat (sc_max_connections small_config)"
proof -
  have h: "handle_new_connection nat_semaphore (sys_srv small_system) = (small_server 0 2, True)"
    by (simp add: run_simps small_system_def small_server_def)
  from admission_exact [OF ok_system.petracache_system_axioms small_system_reachable fresh_wf h] h
  show ?thesis by simp
qed

text \<open>
  Starting with a connection limit the semaphore cannot hold is a panic, and only that is: the
  server is built exactly when the configured maximum is at most \<open>2 ^ 61 - 1\<close>, and then the
  semaphore has that many permits.
\<close>

theorem server_new_panics_iff:
  assumes "semaphore S permits"
  shows "(server_new S cfg storage m cancelled = Panic \<longleftrightarrow>
      2 ^ 61 - 1 < unat (sc_max_connections cfg)) \<and>
    (\<forall>srv. server_new S cfg storage m cancelled = Done srv \<longrightarrow>
      permits (srv_semaphore srv) = unat (sc_max_connections cfg) \<and> srv_config srv = cfg \<and>
      srv_storage srv = storage \<and> srv_metrics srv = m)"
  using semaphore.sem_new_ok [OF assms, of "sc_max_connections cfg"]
    semaphore.sem_new_panic [OF assms, of "sc_max_connections cfg"]
  by (cases "unat (sc_max_connections cfg) \<le> MAX_PERMITS")
    (auto simp: server_new_def MAX_PERMITS_def split: outcome.splits)

theorem server_new_panics_iff_witness:
  "server_new nat_semaphore (small_config\<lparr>sc_max_connections := 2 ^ 61\<rparr>) (fresh_storage mem_empty)
     metrics_new False = Panic"
  by (subst server_new_panics_iff [OF nat_sem.semaphore_axioms, THEN conjunct1]) simp

text \<open>
  The accept loop admits first come, first served: as long as no connection ends meanwhile, the
  streams that get a task are exactly the first ones accepted before the shutdown, as many as there
  are free permits; every other one is counted as rejected, failed accepts count nowhere, and the
  loop ends exactly when a shutdown is among the events.
\<close>

theorem accept_loop_first_come:
  assumes "semaphore S permits" and "accept_loop S evs srv [] = (srv', spawned, stopped)"
  shows "spawned = take (permits (srv_semaphore srv)) (accepted evs) \<and>
    m_total_connections (srv_metrics srv') = m_total_connections (srv_metrics srv) + length spawned \<and>
    m_rejected_connections (srv_metrics srv') + length spawned =
      m_rejected_connections (srv_metrics srv) + length (accepted evs) \<and>
    (stopped \<longleftrightarrow> Shutdown \<in> set evs)"
  using semaphore.accept_loop_admits [OF assms] by simp

theorem accept_loop_first_come_witness:
  "fst (snd (accept_loop nat_semaphore [Accept (Inr (1 :: nat)), Accept (Inl ()), Accept (Inr 2), Accept (Inr 3)]
     (small_server 2 0) [])) = take (id (2 :: nat)) [1, 2, 3]"
proof -
  let ?evs = "[Accept (Inr (1 :: nat)), Accept (Inl ()), Accept (Inr 2), Accept (Inr 3)]"
  let ?l = "accept_loop nat_semaphore ?evs (small_server 2 0) []"
  have l: "?l = (fst ?l, fst (snd ?l), snd (snd ?l))" by simp
  have a: "accepted ?evs = [1, 2, 3]" "srv_semaphore (small_server 2 0) = 2"
    by (simp_all add: small_server_def)
  from accept_loop_first_come [OF nat_sem.semaphore_axioms l] show ?thesis unfolding a by blast
qed

end
