(* ===== verification/Metrics_Text.thy ===== *)
theory Metrics_Text
  imports Handler
begin

text \<open>
  The text of the metrics: \<open>Metrics::gather\<close> of \<open>src/metrics.rs\<close>, what a scraper reads off it, and
  what the text encoder of the \<open>prometheus\<close> crate promises.  \<open>gather\<close> has as its argument \<open>enc\<close> the
  encoded registry, or an error, for the values the metrics have; that is the function \<open>text_of\<close> standing for the text encoder of
  the crate, applied to the registry and the objects \<open>Metrics::new\<close> made (\<open>registry_encoder\<close>).
\<close>

section \<open>Definitions\<close>

text \<open>
  \<open>Metrics::gather\<close>: the encoder's text, which is unwrapped and has to be UTF-8, then the two
  counters the storage keeps outside the registry.
\<close>

definition gather :: "(metrics \<Rightarrow> 'x + bytes) \<Rightarrow> metrics \<Rightarrow> 'db storage \<Rightarrow> str outcome" where
  "gather enc m s =
     (case unwrap (enc m) of
        Panic \<Rightarrow> Panic
      | Done buffer \<Rightarrow>
     (case from_utf8 buffer of
        None \<Rightarrow> Panic
      | Some output \<Rightarrow>
     (let output = output
        @ [LF] @ bs ''# HELP petracache_expired_keys_removed_total Keys removed by lazy expiration or background scan'' @ [LF]
        @ bs ''# TYPE petracache_expired_keys_removed_total counter'' @ [LF]
        @ bs ''petracache_expired_keys_removed_total '' @ to_decimal (unat (st_expired_keys_removed s)) @ [LF];
          output = output
        @ [LF] @ bs ''# HELP petracache_ttl_compaction_removed_total Keys removed by TTL compaction filter'' @ [LF]
        @ bs ''# TYPE petracache_ttl_compaction_removed_total counter'' @ [LF]
        @ bs ''petracache_ttl_compaction_removed_total '' @ to_decimal (unat (st_ttl_compaction_removed s)) @ [LF]
      in Done output)))"

text \<open>
  The values of the objects \<open>Metrics::new\<close> creates, in the order it creates them: which field of the
  metrics an object stands for.  The histogram, which is never observed, has none.
\<close>

definition object_values :: "metrics \<Rightarrow> int option list" where
  "object_values m =
     map (Some \<circ> int)
       [m_cmd_get m, m_cmd_set m, m_cmd_add m, m_cmd_replace m, m_cmd_delete m, m_cmd_incr m,
        m_cmd_decr m, m_cmd_touch m, m_cmd_flush m, m_get_hits m, m_get_misses m] @
     [Some (m_active_connections m)] @
     map (Some \<circ> int)
       [m_total_connections m, m_rejected_connections m, m_bytes_read m, m_bytes_written m] @
     [None] @
     map (Some \<circ> int) [m_protocol_errors m, m_storage_errors m]"

text \<open>\<open>encoder.encode(&self.registry.gather())\<close>, where the objects have the values of the fields.\<close>

definition registry_encoder ::
    "('reg \<Rightarrow> ('c \<times> int option) list \<Rightarrow> 'x + bytes) \<Rightarrow> 'reg \<Rightarrow> 'c list \<Rightarrow> metrics \<Rightarrow> 'x + bytes" where
  "registry_encoder text_of registry objects m = text_of registry (zip objects (object_values m))"

text \<open>The counters, under the names \<open>Metrics::new\<close> gives them, and the name of the gauge.\<close>

definition exported_counters :: "metrics \<Rightarrow> (str \<times> nat) list" where
  "exported_counters m =
     [(bs ''petracache_cmd_get_total'', m_cmd_get m), (bs ''petracache_cmd_set_total'', m_cmd_set m),
      (bs ''petracache_cmd_add_total'', m_cmd_add m), (bs ''petracache_cmd_replace_total'', m_cmd_replace m),
      (bs ''petracache_cmd_delete_total'', m_cmd_delete m), (bs ''petracache_cmd_incr_total'', m_cmd_incr m),
      (bs ''petracache_cmd_decr_total'', m_cmd_decr m), (bs ''petracache_cmd_touch_total'', m_cmd_touch m),
      (bs ''petracache_cmd_flush_total'', m_cmd_flush m), (bs ''petracache_get_hits_total'', m_get_hits m),
      (bs ''petracache_get_misses_total'', m_get_misses m),
      (bs ''petracache_connections_total'', m_total_connections m),
      (bs ''petracache_rejected_connections_total'', m_rejected_connections m),
      (bs ''petracache_bytes_read_total'', m_bytes_read m),
      (bs ''petracache_bytes_written_total'', m_bytes_written m),
      (bs ''petracache_protocol_errors_total'', m_protocol_errors m),
      (bs ''petracache_storage_errors_total'', m_storage_errors m)]"

definition gauge_name :: str where
  "gauge_name = bs ''petracache_active_connections''"

definition expired_name :: str where
  "expired_name = bs ''petracache_expired_keys_removed_total''"

definition compaction_name :: str where
  "compaction_name = bs ''petracache_ttl_compaction_removed_total''"

lemmas [run_simps] = gather_def exported_counters_def gauge_name_def expired_name_def compaction_name_def

section \<open>The scraper's side: reading the metrics text\<close>

text \<open>The sample of a metric: the number on the last line that starts with its name.\<close>

definition sample_lines :: "str \<Rightarrow> str \<Rightarrow> str list" where
  "sample_lines name txt = filter (\<lambda>l. take (length name + 1) l = name @ [SP]) (split_on LF txt)"

definition metric_sample :: "str \<Rightarrow> str \<Rightarrow> u64 option" where
  "metric_sample name txt =
     (let ls = sample_lines name txt
      in if ls = [] then None else from_str_uint (drop (length name + 1) (last ls)))"

lemma split_on_append: "split_on s (xs @ s # ys) = split_on s xs @ split_on s ys"
proof (induction xs)
  case (Cons x xs)
  then show ?case by (cases "split_on s xs") auto
qed simp

lemma sample_lines_append: "sample_lines name (xs @ LF # ys) = sample_lines name xs @ sample_lines name ys"
  by (simp add: sample_lines_def split_on_append)

lemma sample_lines_line:
  "LF \<notin> set l \<Longrightarrow> sample_lines name l = (if take (length name + 1) l = name @ [SP] then [l] else [])"
  by (simp add: sample_lines_def split_on_no_sep)

lemma sample_lines_here:
  "LF \<notin> set name \<Longrightarrow> LF \<notin> set l \<Longrightarrow> sample_lines name (name @ SP # l) = [name @ SP # l]"
  by (simp add: sample_lines_def split_on_no_sep)

lemma metric_sample_line:
  "sample_lines name txt = xs @ [name @ SP # to_decimal (unat n)] \<Longrightarrow> metric_sample name txt = Some n"
  using from_str_uint_to_decimal [of n] by (simp add: metric_sample_def)

text \<open>Names of the Prometheus data model do not run into each other or into comments.\<close>

lemma metric_name_okD:
  assumes "metric_name_ok n"
  shows "n \<noteq> []" "hd n \<noteq> 35" "SP \<notin> set n" "LF \<notin> set n"
  using assms by (auto simp: metric_name_ok_def metric_name_start_def is_digit_def list_all_iff)

lemma metric_name_ascii: "metric_name_ok n \<Longrightarrow> b \<in> set n \<Longrightarrow> b < 128"
  by (auto simp: metric_name_ok_def metric_name_start_def is_digit_def list_all_iff word_less_nat_alt word_le_nat_alt)

lemma to_decimal_no_LF [simp]: "LF \<notin> set (to_decimal i)"
  using to_decimal_ascii is_digit_ascii by fastforce

lemma sample_lines_comment:
  assumes "metric_name_ok n" and "LF \<notin> set l"
  shows "sample_lines n (35 # l) = []"
  using metric_name_okD [OF assms(1)] assms(2) by (cases n) (auto simp: sample_lines_line)

lemma sample_lines_named:
  assumes "metric_name_ok n" and "metric_name_ok n'" and "LF \<notin> set d"
  shows "sample_lines n (n' @ SP # d) = (if n = n' then [n @ SP # d] else [])"
proof -
  have "n = n'" if "take (length n + 1) (n' @ SP # d) = n @ [SP]"
  proof -
    have "n' @ SP # d = (n @ [SP]) @ drop (length n + 1) (n' @ SP # d)"
      unfolding that [symmetric] by (simp only: append_take_drop_id)
    then have "n' @ SP # d = n @ SP # drop (length n + 1) (n' @ SP # d)" by (simp only: append.simps append_assoc)
    with metric_name_okD [OF assms(1)] metric_name_okD [OF assms(2)] show ?thesis
      by (metis takeWhile_neq_append)
  qed
  with metric_name_okD(4) [OF assms(2)] assms(3) show ?thesis by (auto simp: sample_lines_line)
qed

lemma own_names_ok: "metric_name_ok expired_name" "metric_name_ok compaction_name" "expired_name \<noteq> compaction_name"
  by (simp_all add: expired_name_def compaction_name_def metric_name_ok_def metric_name_start_def
      is_digit_def bs_def)

text \<open>What \<open>gather\<close> appends: comments, and one line for each of the two counters.\<close>

definition gather_tail :: "'db storage \<Rightarrow> str" where
  "gather_tail s =
     (bs ''# HELP petracache_expired_keys_removed_total Keys removed by lazy expiration or background scan'') @ LF #
     (bs ''# TYPE petracache_expired_keys_removed_total counter'') @ LF #
     (expired_name @ SP # to_decimal (unat (st_expired_keys_removed s))) @ LF # [] @ LF #
     (bs ''# HELP petracache_ttl_compaction_removed_total Keys removed by TTL compaction filter'') @ LF #
     (bs ''# TYPE petracache_ttl_compaction_removed_total counter'') @ LF #
     (compaction_name @ SP # to_decimal (unat (st_ttl_compaction_removed s))) @ LF # []"

lemma gather_cases:
  assumes "gather enc m s = Done txt"
  shows "\<exists>out. enc m = Inr out \<and> utf8_valid out \<and> txt = out @ LF # gather_tail s"
proof -
  have sp: "bs ''petracache_expired_keys_removed_total '' = expired_name @ [SP]"
    "bs ''petracache_ttl_compaction_removed_total '' = compaction_name @ [SP]"
    by (simp_all add: expired_name_def compaction_name_def bs_def)
  show ?thesis
    using assms unfolding gather_def sp gather_tail_def
    by (cases "enc m") (auto simp: Let_def unwrap_def from_utf8_def split: if_splits)
qed

lemma bs_comment: "bs (CHR 0x23 # xs) = 35 # bs xs"
  by (simp add: bs_def)

lemma gather_tail_lines:
  assumes "metric_name_ok n"
  shows "sample_lines n (gather_tail s) =
    (if n = expired_name then [n @ SP # to_decimal (unat (st_expired_keys_removed s))]
     else if n = compaction_name then [n @ SP # to_decimal (unat (st_ttl_compaction_removed s))] else [])"
proof -
  have c: "sample_lines n (bs ''# HELP petracache_expired_keys_removed_total Keys removed by lazy expiration or background scan'') = []"
    "sample_lines n (bs ''# TYPE petracache_expired_keys_removed_total counter'') = []"
    "sample_lines n (bs ''# HELP petracache_ttl_compaction_removed_total Keys removed by TTL compaction filter'') = []"
    "sample_lines n (bs ''# TYPE petracache_ttl_compaction_removed_total counter'') = []"
    unfolding bs_comment by (rule sample_lines_comment [OF assms]; simp add: bs_def)+
  have e: "sample_lines n [] = []" by (simp add: sample_lines_line)
  show ?thesis
    unfolding gather_tail_def
    by (simp only: sample_lines_append sample_lines_append [of _ "[]", unfolded append_Nil] c e
        sample_lines_named [OF assms own_names_ok(1) to_decimal_no_LF]
        sample_lines_named [OF assms own_names_ok(2) to_decimal_no_LF])
      (use own_names_ok(3) in auto)
qed

lemma gather_lines:
  assumes "gather enc m s = Done txt" and "metric_name_ok n" and "enc m = Inr out"
  shows "sample_lines n txt = sample_lines n out @ sample_lines n (gather_tail s)"
  using gather_cases [OF assms(1)] assms(3) by (auto simp: sample_lines_append)

lemma gather_samples:
  assumes "gather enc m s = Done txt"
  shows "metric_sample expired_name txt = Some (st_expired_keys_removed s)"
    "metric_sample compaction_name txt = Some (st_ttl_compaction_removed s)"
proof -
  obtain out where out: "enc m = Inr out" using gather_cases [OF assms] by blast
  show "metric_sample expired_name txt = Some (st_expired_keys_removed s)"
    "metric_sample compaction_name txt = Some (st_ttl_compaction_removed s)"
    using gather_lines [OF assms own_names_ok(1) out] gather_lines [OF assms own_names_ok(2) out] own_names_ok
    by (auto simp: gather_tail_lines intro!: metric_sample_line)
qed

section \<open>What the text encoder promises\<close>

text \<open>
  What the program relies on: encoding succeeds and the text is UTF-8; it has one line for each
  counter and for the gauge, the name and the value.  Values pass through a 64-bit floating point number, so that only those up
  to \<open>2 ^ 53\<close> are sure to be printed exactly.
\<close>

locale text_encoder =
  fixes enc :: "metrics \<Rightarrow> 'x + bytes"
  assumes encodes: "\<exists>b. enc m = Inr b \<and> utf8_valid b"
    and counter_line:
      "enc m = Inr b \<Longrightarrow> (n, v) \<in> set (exported_counters m) \<Longrightarrow> v \<le> 2 ^ 53 \<Longrightarrow>
         sample_lines n b = [n @ SP # to_decimal v]"
    and gauge_line:
      "enc m = Inr b \<Longrightarrow> 0 \<le> m_active_connections m \<Longrightarrow> m_active_connections m \<le> 2 ^ 53 \<Longrightarrow>
         sample_lines gauge_name b = [gauge_name @ SP # to_decimal (nat (m_active_connections m))]"

lemma exported_names_ok: "list_all metric_name_ok (map fst (exported_counters m))"
  by (simp add: exported_counters_def metric_name_ok_def metric_name_start_def is_digit_def bs_def)

lemma exported_names_other:
  "list_all (\<lambda>n. n \<noteq> expired_name \<and> n \<noteq> compaction_name \<and> n \<noteq> gauge_name) (map fst (exported_counters m))"
  by (simp add: exported_counters_def expired_name_def compaction_name_def gauge_name_def) (simp add: bs_def)

lemma exported_names:
  "(n, v) \<in> set (exported_counters m) \<Longrightarrow>
     metric_name_ok n \<and> n \<noteq> expired_name \<and> n \<noteq> compaction_name \<and> n \<noteq> gauge_name"
  using exported_names_ok [of m] exported_names_other [of m] by (fastforce simp: list_all_iff)

lemma gauge_name_ok: "metric_name_ok gauge_name" "gauge_name \<noteq> expired_name" "gauge_name \<noteq> compaction_name"
  using metric_names_ok
  by (simp_all add: gauge_name_def metric_names_def expired_name_def compaction_name_def) (simp_all add: bs_def)

context text_encoder
begin

lemma gathers: "\<exists>txt. gather enc m s = Done txt"
  using encodes [of m] by (auto simp: gather_def unwrap_def from_utf8_def Let_def)

lemma counter_sample:
  assumes "gather enc m s = Done txt" and "(n, v) \<in> set (exported_counters m)" and "v \<le> 2 ^ 53"
  shows "metric_sample n txt = Some (of_nat v)"
proof -
  obtain out where out: "enc m = Inr out" using encodes by blast
  have "unat (of_nat v :: u64) = v" using assms(3) by (simp add: unat_of_nat)
  with gather_lines [OF assms(1) _ out, of n] exported_names [OF assms(2)] counter_line [OF out assms(2,3)]
  show ?thesis by (intro metric_sample_line [where xs = "[]"]) (simp add: gather_tail_lines)
qed

lemma gauge_sample:
  assumes "gather enc m s = Done txt" and "0 \<le> m_active_connections m" and "m_active_connections m \<le> 2 ^ 53"
  shows "metric_sample gauge_name txt = Some (of_int (m_active_connections m))"
proof -
  let ?v = "nat (m_active_connections m)"
  obtain out where out: "enc m = Inr out" using encodes by blast
  have "?v < 2 ^ 64" using assms(3) by simp
  then have "unat (of_nat ?v :: u64) = ?v" by (simp only: unat_of_nat) simp
  with gather_lines [OF assms(1) gauge_name_ok(1) out] gauge_line [OF out assms(2,3)] gauge_name_ok
  have "metric_sample gauge_name txt = Some (of_nat ?v)"
    by (intro metric_sample_line [where xs = "[]"]) (simp add: gather_tail_lines)
  with assms(2) show ?thesis by simp
qed

end

text \<open>
  What the crate promises: the text has one line, name and value, for each object with a value whose
  name is registered; an object that was not registered is not promised a line.  With the
  registrations of \<open>Metrics::new\<close> this gives what the program relies on.
\<close>

locale prometheus_text = prometheus X name_of registered
  for X :: "('c, 'reg, 'x) prometheus_crate" and name_of :: "'c \<Rightarrow> str" and registered :: "'reg \<Rightarrow> str set" +
  fixes text_of :: "'reg \<Rightarrow> ('c \<times> int option) list \<Rightarrow> 'y + bytes" and registry :: 'reg and objects :: "'c list"
  assumes created: "metrics_create X = Done (registry, objects)"
    and encode_text: "\<exists>b. text_of r vs = Inr b \<and> utf8_valid b"
    and object_line:
      "text_of r vs = Inr b \<Longrightarrow> distinct (map (name_of \<circ> fst) vs) \<Longrightarrow>
         list_all (metric_name_ok \<circ> name_of \<circ> fst) vs \<Longrightarrow> (c, Some v) \<in> set vs \<Longrightarrow>
         name_of c \<in> registered r \<Longrightarrow> 0 \<le> v \<Longrightarrow> v \<le> 2 ^ 53 \<Longrightarrow>
         sample_lines (name_of c) b = [name_of c @ SP # to_decimal (nat v)]"

lemma length_object_values: "length (object_values m) = length metric_names"
  by (simp add: object_values_def metric_names_def)

lemma counter_values:
  "(n, v) \<in> set (exported_counters m) \<Longrightarrow> (n, Some (int v)) \<in> set (zip metric_names (object_values m))"
  by (auto simp: exported_counters_def metric_names_def object_values_def)

lemma gauge_value: "(gauge_name, Some (m_active_connections m)) \<in> set (zip metric_names (object_values m))"
  by (simp add: gauge_name_def metric_names_def object_values_def)

context prometheus_text
begin

lemma made: "map name_of objects = metric_names" "registered registry = set metric_names"
  using create_succeeds created by auto

lemma named_line:
  assumes "registry_encoder text_of registry objects m = Inr b"
    and "(n, Some v) \<in> set (zip metric_names (object_values m))" and "0 \<le> v" and "v \<le> 2 ^ 53"
  shows "sample_lines n b = [n @ SP # to_decimal (nat v)]"
proof -
  let ?vs = "zip objects (object_values m)"
  have len: "length objects = length (object_values m)"
    using made(1) by (metis length_map length_object_values)
  have names: "map (name_of \<circ> fst) ?vs = metric_names"
    using made(1) len by (simp add: map_map [symmetric] del: map_map)
  have "zip metric_names (object_values m) = map (\<lambda>(c, v). (name_of c, v)) ?vs"
    by (simp add: made(1) [symmetric] zip_map1)
  with assms(2) obtain c where c: "(c, Some v) \<in> set ?vs" "n = name_of c" by auto
  have "list_all (metric_name_ok \<circ> name_of \<circ> fst) ?vs"
    using metric_names_ok by (simp add: names [symmetric] list.pred_map o_assoc)
  moreover have "name_of c \<in> registered registry" using c assms(2) made(2) by (auto dest: set_zip_leftD)
  ultimately show ?thesis
    using object_line [of registry ?vs b c v] assms(1,3,4) names metric_names_distinct c
    by (simp add: registry_encoder_def)
qed

end

sublocale prometheus_text \<subseteq> text_encoder "registry_encoder text_of registry objects"
proof
  fix m b n v
  show "\<exists>b. registry_encoder text_of registry objects m = Inr b \<and> utf8_valid b"
    using encode_text by (simp add: registry_encoder_def)
  show "sample_lines n b = [n @ SP # to_decimal v]"
    if "registry_encoder text_of registry objects m = Inr b" "(n, v) \<in> set (exported_counters m)" "v \<le> 2 ^ 53"
  proof -
    from that(3) have "int v \<le> 2 ^ 53" by simp
    with named_line [OF that(1) counter_values [OF that(2)]] show ?thesis by simp
  qed
  show "sample_lines gauge_name b = [gauge_name @ SP # to_decimal (nat (m_active_connections m))]"
    if "registry_encoder text_of registry objects m = Inr b" "0 \<le> m_active_connections m"
      "m_active_connections m \<le> 2 ^ 53"
    by (rule named_line [OF that(1) gauge_value that(2,3)])
qed

context prometheus_text
begin

lemma axioms_text: "text_encoder (registry_encoder text_of registry objects)"
  by (rule text_encoder_axioms)

end

text \<open>An encoder that writes one line for each registered object, on the registry that keeps the names.\<close>

definition plain_text :: "str list \<Rightarrow> (str \<times> int option) list \<Rightarrow> unit + bytes" where
  "plain_text r vs =
     Inr (concat (map (\<lambda>(n, v). n @ SP # to_decimal v @ [LF])
       (map (\<lambda>(n, v). (n, nat (the v)))
         (filter (\<lambda>(n, v). n \<in> set r \<and> metric_name_ok n \<and> v \<noteq> None) vs))))"

abbreviation plain_encoder :: "metrics \<Rightarrow> unit + bytes" where
  "plain_encoder \<equiv> registry_encoder plain_text (rev metric_names) metric_names"

lemma names_register_all:
  "distinct (cs @ r) \<Longrightarrow> register_all names_registry cs r = Done (rev cs @ r)"
  by (induction cs arbitrary: r) (auto simp: names_registry_def unwrap_def)

lemma names_created: "metrics_create names_registry = Done (rev metric_names, metric_names)"
proof -
  obtain cs where "unwrap_all (create_metrics names_registry) = Done cs" "map (\<lambda>c. c) cs = metric_names"
    using names.created_names by blast
  with names_register_all [of metric_names "[]"] metric_names_distinct show ?thesis
    by (simp add: metrics_create_def names_registry_def)
qed

lemma plain_lines_none:
  "metric_name_ok n \<Longrightarrow> \<forall>(n', v) \<in> set es. metric_name_ok n' \<Longrightarrow> n \<notin> fst ` set es \<Longrightarrow>
     sample_lines n (concat (map (\<lambda>(n, v). n @ SP # to_decimal v @ [LF]) es)) = []"
proof (induction es)
  case (Cons e es)
  obtain n' v where e: "e = (n', v)" by (cases e)
  with Cons sample_lines_append [of n "n' @ SP # to_decimal v"] show ?case by (auto simp: sample_lines_named)
qed (simp add: sample_lines_line)

lemma plain_lines:
  assumes "distinct (map fst es)" and "\<forall>(n', v) \<in> set es. metric_name_ok n'" and "(n, v) \<in> set es"
  shows "sample_lines n (concat (map (\<lambda>(n, v). n @ SP # to_decimal v @ [LF]) es)) = [n @ SP # to_decimal v]"
  using assms
proof (induction es)
  case (Cons e es)
  obtain n' v' where e: "e = (n', v')" by (cases e)
  note app = sample_lines_append [of n "n' @ SP # to_decimal v'"]
  show ?case
  proof (cases "(n, v) = e")
    case True
    with Cons.prems e have "sample_lines n (concat (map (\<lambda>(n, v). n @ SP # to_decimal v @ [LF]) es)) = []"
      by (intro plain_lines_none) auto
    with True e app Cons.prems show ?thesis by (auto simp: sample_lines_named)
  next
    case False
    with Cons.prems e have "n \<noteq> n'" "(n, v) \<in> set es" by (auto simp: image_iff)
    with Cons e app show ?thesis by (auto simp: sample_lines_named)
  qed
qed simp

interpretation plain: prometheus_text names_registry "\<lambda>c. c" set plain_text "rev metric_names" metric_names
proof
  fix r vs b n and v :: int
  let ?es = "map (\<lambda>(n, v). (n, nat (the v))) (filter (\<lambda>(n, v). n \<in> set r \<and> metric_name_ok n \<and> v \<noteq> None) vs)"
  let ?b = "concat (map (\<lambda>(n, v). n @ SP # to_decimal v @ [LF]) ?es)"
  have ok: "\<forall>(n, v) \<in> set ?es. metric_name_ok n" by auto
  have "x < 128" if x: "x \<in> set ?b" for x
  proof -
    obtain n v where nv: "(n, v) \<in> set ?es" and "x \<in> set n \<or> x = SP \<or> x \<in> set (to_decimal v) \<or> x = LF"
      using x by fastforce
    moreover have "metric_name_ok n" using ok nv by fastforce
    ultimately show ?thesis using metric_name_ascii to_decimal_ascii is_digit_ascii by fastforce
  qed
  then have "utf8_valid ?b" by (intro utf8_valid_ascii) blast
  then show "\<exists>b. plain_text r vs = Inr b \<and> utf8_valid b" unfolding plain_text_def by blast
  show "metrics_create names_registry = Done (rev metric_names, metric_names)" by (rule names_created)
  assume out: "plain_text r vs = Inr b" and "distinct (map ((\<lambda>c. c) \<circ> fst) vs)"
    and "list_all (metric_name_ok \<circ> (\<lambda>c. c) \<circ> fst) vs" and v: "(n, Some v) \<in> set vs" and "n \<in> set r"
  then have "(n, nat v) \<in> set ?es" by (force simp: list_all_iff)
  moreover have "distinct (map fst ?es)"
  proof -
    have "distinct (map fst (filter (\<lambda>(n, v). n \<in> set r \<and> metric_name_ok n \<and> v \<noteq> None) vs))"
      using \<open>distinct (map ((\<lambda>c. c) \<circ> fst) vs)\<close> by (intro distinct_map_filter) (simp add: comp_def)
    then show ?thesis by (simp add: comp_def case_prod_beta)
  qed
  ultimately have "sample_lines n ?b = [n @ SP # to_decimal (nat v)]" using plain_lines ok by blast
  with out show "sample_lines n b = [n @ SP # to_decimal (nat v)]" unfolding plain_text_def by simp
qed

section \<open>Properties\<close>

text \<open>
  What a scrape of \<open>/metrics\<close> shows of the two counters kept outside the registry: whatever the
  text encoder produced before, reading the samples of the two names off the gathered text gives
  exactly the numbers of lazy and of compaction removals; and gathering fails only if the encoder
  fails or its output is not UTF-8.
\<close>

theorem metrics_text_samples:
  assumes "gather enc m s = r"
  shows "(r = Panic \<longleftrightarrow> (\<forall>b. enc m = Inr b \<longrightarrow> \<not> utf8_valid b)) \<and>
    (\<forall>txt. r = Done txt \<longrightarrow>
       metric_sample (bs ''petracache_expired_keys_removed_total'') txt = Some (st_expired_keys_removed s) \<and>
       metric_sample (bs ''petracache_ttl_compaction_removed_total'') txt = Some (st_ttl_compaction_removed s))"
proof
  show "r = Panic \<longleftrightarrow> (\<forall>b. enc m = Inr b \<longrightarrow> \<not> utf8_valid b)"
    using assms by (cases "enc m") (auto simp: gather_def unwrap_def from_utf8_def Let_def)
qed (use gather_samples assms in \<open>auto simp: expired_name_def compaction_name_def\<close>)

theorem metrics_text_samples_witness:
  "\<exists>txt. gather (\<lambda>m. Inr [] :: unit + bytes) metrics_new (fresh_storage mem_empty) = Done txt \<and>
     metric_sample (bs ''petracache_expired_keys_removed_total'') txt = Some 0"
proof -
  let ?r = "gather (\<lambda>m. Inr [] :: unit + bytes) metrics_new (fresh_storage mem_empty)"
  have "utf8_valid []" by (simp add: utf8_valid_def utf8_chunks.simps)
  then obtain out where t: "?r = Done out" by (auto simp: gather_def unwrap_def from_utf8_def Let_def)
  moreover have "st_expired_keys_removed (fresh_storage mem_empty) = 0" by (simp add: fresh_storage_def)
  ultimately show ?thesis using metrics_text_samples [OF t] by auto
qed

end
