(* ===== verification/Health.thy ===== *)
theory Health
  imports Metrics_Text
begin

text \<open>
  The HTTP health and metrics server of \<open>src/health.rs\<close>, which runs in one thread of its own.  What the
  operating system answers on an accepted connection is the record \<open>http_conn\<close>; what the other threads
  have left in the shared flags, metrics and storage counters when the loop makes a turn is the
  record \<open>health_turn\<close>.
\<close>

section \<open>Definitions\<close>

record health_server =
  hs_ready :: bool
  hs_running :: bool

definition health_new :: health_server where
  "health_new = \<lparr>hs_ready = False, hs_running = True\<rparr>"

definition set_ready :: "bool \<Rightarrow> health_server \<Rightarrow> health_server" where
  "set_ready ready h = h\<lparr>hs_ready := ready\<rparr>"

definition is_ready :: "health_server \<Rightarrow> bool" where
  "is_ready h = hs_ready h"

definition health_stop :: "health_server \<Rightarrow> health_server" where
  "health_stop h = h\<lparr>hs_running := False\<rparr>"

text \<open>
  A connection: the error of \<open>set_nonblocking\<close>, if any, the result of reading the request line, and
  the errors of writing and flushing a response.  The socket is blocking and has no timeout:
  \<open>read_line\<close> returns when a line end, the end of the stream or an error has arrived, and
  \<open>hc_request\<close> is \<open>None\<close> if none of these ever does.
\<close>

record 'i http_conn =
  hc_blocking :: "'i option"
  hc_request :: "('i + str) option"
  hc_write :: "bytes \<Rightarrow> 'i option"
  hc_flush :: "'i option"

definition status_text :: "nat \<Rightarrow> str" where
  "status_text status =
     (if status = 200 then bs ''OK''
      else if status = 400 then bs ''Bad Request''
      else if status = 404 then bs ''Not Found''
      else if status = 405 then bs ''Method Not Allowed''
      else if status = 503 then bs ''Service Unavailable''
      else bs ''Unknown'')"

definition http_text :: "nat \<Rightarrow> str \<Rightarrow> str \<Rightarrow> bytes" where
  "http_text status content_type body =
     bs ''HTTP/1.1 '' @ to_decimal status @ bs '' '' @ status_text status @ crlf
     @ bs ''Content-Type: '' @ content_type @ crlf
     @ bs ''Content-Length: '' @ to_decimal (length body) @ crlf
     @ bs ''Connection: close'' @ crlf @ crlf @ body"

text \<open>The result and what was handed to \<open>write_all\<close>.\<close>

definition send_http ::
    "'i http_conn \<Rightarrow> nat \<Rightarrow> str \<Rightarrow> str \<Rightarrow> ('i + unit) \<times> bytes" where
  "send_http hc status content_type body =
     (let response = http_text status content_type body
      in (case hc_write hc response of
            Some e \<Rightarrow> (Inl e, response)
          | None \<Rightarrow> (case hc_flush hc of Some e \<Rightarrow> (Inl e, response) | None \<Rightarrow> (Inr (), response))))"

definition json_status :: "string \<Rightarrow> str" where
  "json_status s = bs ''{'' @ [34] @ bs ''status'' @ [34] @ bs '':'' @ [34] @ bs s @ [34] @ bs ''}''"

text \<open>
  \<open>None\<close>: the call does not return.  A panic is one of \<open>Metrics::gather\<close>, which is called for
  \<open>/metrics\<close> only.
\<close>

definition handle_http ::
    "(metrics \<Rightarrow> 'x + bytes) \<Rightarrow> metrics \<Rightarrow> 'db storage \<Rightarrow> health_server \<Rightarrow> 'i http_conn \<Rightarrow>
      (('i + unit) \<times> bytes) outcome option" where
  "handle_http enc m s h hc =
     (case hc_blocking hc of
        Some e \<Rightarrow> Some (Done (Inl e, []))
      | None \<Rightarrow>
      (case hc_request hc of
         None \<Rightarrow> None
       | Some (Inl e) \<Rightarrow> Some (Done (Inl e, []))
       | Some (Inr request_line) \<Rightarrow>
       (let parts = split_whitespace request_line
        in if length parts < 2 then
             Some (Done (send_http hc 400 (bs ''text/plain'') (bs ''Bad Request'')))
           else
           (let meth = parts ! 0; path = parts ! 1
            in if meth \<noteq> bs ''GET'' then
                 Some (Done (send_http hc 405 (bs ''text/plain'') (bs ''Method Not Allowed'')))
               else if path = bs ''/health'' \<or> path = bs ''/healthz'' then
                 Some (Done (send_http hc 200 (bs ''application/json'') (json_status ''healthy'')))
               else if path = bs ''/ready'' \<or> path = bs ''/readyz'' then
                 (if is_ready h then
                    Some (Done (send_http hc 200 (bs ''application/json'') (json_status ''ready'')))
                  else Some (Done (send_http hc 503 (bs ''application/json'') (json_status ''not ready''))))
               else if path = bs ''/metrics'' then
                 (case gather enc m s of
                    Panic \<Rightarrow> Some Panic
                  | Done txt \<Rightarrow> Some (Done (send_http hc 200 (bs ''text/plain; version=0.0.4'') txt)))
               else Some (Done (send_http hc 404 (bs ''text/plain'') (bs ''Not Found'')))))))"

text \<open>
  The loop of \<open>HealthServer::run\<close>.  The result is what was written on each connection, in order, and
  where the thread is after the turns: polling, returned, inside a call that does not return, or
  ended by a panic.  An error of one connection or of \<open>accept\<close> is only logged.
\<close>

datatype 'i http_accept = HttpConn "'i http_conn" | WouldBlock | AcceptError 'i

record ('db, 'i) health_turn =
  ht_server :: health_server
  ht_metrics :: metrics
  ht_storage :: "'db storage"
  ht_accept :: "'i http_accept"

datatype health_status = Polling | Stopped | Hanging | Died

fun health_loop ::
    "(metrics \<Rightarrow> 'x + bytes) \<Rightarrow> ('db, 'i) health_turn list \<Rightarrow> bytes list \<times> health_status" where
  "health_loop enc [] = ([], Polling)"
| "health_loop enc (t # turns) =
     (if hs_running (ht_server t) then
        (case ht_accept t of
           HttpConn hc \<Rightarrow>
             (case handle_http enc (ht_metrics t) (ht_storage t) (ht_server t) hc of
                None \<Rightarrow> ([], Hanging)
              | Some Panic \<Rightarrow> ([], Died)
              | Some (Done (res, out)) \<Rightarrow>
                  (let (outs, status) = health_loop enc turns in (out # outs, status)))
         | WouldBlock \<Rightarrow> health_loop enc turns
         | AcceptError e \<Rightarrow> health_loop enc turns)
      else ([], Stopped))"

text \<open>\<open>HealthServer::run\<close>; \<open>bind_error\<close> and \<open>nonblocking_error\<close> are the errors of making the listener.\<close>

definition health_run ::
    "(str \<Rightarrow> 'i option) \<Rightarrow> 'i option \<Rightarrow> (metrics \<Rightarrow> 'x + bytes) \<Rightarrow> metrics_config \<Rightarrow>
      ('db, 'i) health_turn list \<Rightarrow> 'i + bytes list \<times> health_status" where
  "health_run bind_error nonblocking_error enc config turns =
     (case bind_error (mt_listen_addr config) of
        Some e \<Rightarrow> Inl e
      | None \<Rightarrow> (case nonblocking_error of Some e \<Rightarrow> Inl e | None \<Rightarrow> Inr (health_loop enc turns)))"

lemmas health_defs = health_new_def set_ready_def is_ready_def health_stop_def
  status_text_def http_text_def send_http_def json_status_def handle_http_def health_run_def

lemmas [run_simps] = health_defs

section \<open>The client's side: reading a response\<close>

definition read_line :: "bytes \<Rightarrow> bytes \<times> bytes" where
  "read_line buf =
     (let l = takeWhile (\<lambda>b. b \<noteq> CR) buf in (l, drop (length l + 2) buf))"

text \<open>Status, content type and as many bytes of body as the length header announces.\<close>

definition read_http :: "bytes \<Rightarrow> (nat \<times> bytes \<times> bytes) option" where
  "read_http buf =
     (let (status_line, r1) = read_line buf; (type_line, r2) = read_line r1;
          (length_line, r3) = read_line r2; (conn_line, r4) = read_line r3; (blank, body) = read_line r4
      in (case split_on SP status_line of
            a # code # _ \<Rightarrow>
              (case parse_usize (drop (length ''Content-Length: '') length_line) of
                 Some n \<Rightarrow>
                   if blank = [] then
                     Some (dec_value 0 code, drop (length ''Content-Type: '') type_line,
                       take (unat n) body)
                   else None
               | None \<Rightarrow> None)
          | _ \<Rightarrow> None))"

lemma read_line_append: "CR \<notin> set l \<Longrightarrow> read_line (l @ CR # LF # rest) = (l, rest)"
  by (simp add: read_line_def)

lemma status_line_no_CR: "CR \<notin> set (bs ''HTTP/1.1 '' @ to_decimal status @ bs '' '' @ status_text status)"
  using to_decimal_no_sep [of status] by (auto simp: bs_def status_text_def split: if_splits)

lemma read_http_text:
  assumes "CR \<notin> set ct" and "length body < 2 ^ 64"
  shows "read_http (http_text status ct body) = Some (status, ct, body)"
proof -
  let ?l1 = "bs ''HTTP/1.1 '' @ to_decimal status @ bs '' '' @ status_text status"
  let ?l2 = "bs ''Content-Type: '' @ ct" and ?l3 = "bs ''Content-Length: '' @ to_decimal (length body)"
  let ?l4 = "bs ''Connection: close''"
  have whole: "http_text status ct body =
      ?l1 @ CR # LF # ?l2 @ CR # LF # ?l3 @ CR # LF # ?l4 @ CR # LF # [] @ CR # LF # body"
    by (simp add: http_text_def)
  have l2: "CR \<notin> set ?l2" using assms(1) by (auto simp: bs_def)
  have l3: "CR \<notin> set ?l3" using to_decimal_no_sep by (auto simp: bs_def)
  have l4: "CR \<notin> set ?l4" "CR \<notin> set []" by (auto simp: bs_def)
  have l1: "CR \<notin> set ?l1" by (rule status_line_no_CR)
  have "split_on SP (bs ''HTTP/1.1'' @ SP # to_decimal status @ SP # status_text status) =
      bs ''HTTP/1.1'' # to_decimal status # split_on SP (status_text status)"
    using to_decimal_no_sep [of status] by (simp add: split_on_append_sep bs_def)
  then have sp: "split_on SP ?l1 = bs ''HTTP/1.1'' # to_decimal status # split_on SP (status_text status)"
    by (simp add: bs_def)
  have n: "unat (of_nat (length body) :: usize) = length body" using assms(2) by (simp add: unat_of_nat)
  then have pn: "parse_usize (to_decimal (length body)) = Some (of_nat (length body))"
    using dec_usize.dec_enc [of "of_nat (length body)"] by simp
  have d: "drop (length ''Content-Length: '') ?l3 = to_decimal (length body)"
    "drop (length ''Content-Type: '') ?l2 = ct" by simp_all
  show ?thesis
    unfolding read_http_def whole
    by (simp only: read_line_append [OF l1] read_line_append [OF l2] read_line_append [OF l3]
        read_line_append [OF l4(1)] read_line_append [OF l4(2)] Let_def prod.case sp list.case d pn
        option.case n take_all order_refl to_decimal_value if_True) simp
qed

section \<open>The routes\<close>

text \<open>A connection on which reading yields a given line and writing works, and one that stays silent.\<close>

definition request_conn :: "str \<Rightarrow> unit http_conn" where
  "request_conn line =
     \<lparr>hc_blocking = None, hc_request = Some (Inr line), hc_write = (\<lambda>b. None), hc_flush = None\<rparr>"

definition silent_conn :: "unit http_conn" where
  "silent_conn = \<lparr>hc_blocking = None, hc_request = None, hc_write = (\<lambda>b. None), hc_flush = None\<rparr>"

text \<open>The routes, as the HTTP table of the README has them.\<close>

definition route_status :: "bool \<Rightarrow> str list \<Rightarrow> nat" where
  "route_status ready parts =
     (case parts of
        meth # path # _ \<Rightarrow>
          if meth \<noteq> bs ''GET'' then 405
          else if path \<in> {bs ''/health'', bs ''/healthz'', bs ''/metrics''} then 200
          else if path \<in> {bs ''/ready'', bs ''/readyz''} then (if ready then 200 else 503)
          else 404
      | _ \<Rightarrow> 400)"

definition is_scrape :: "str list \<Rightarrow> bool" where
  "is_scrape parts \<longleftrightarrow> take 2 parts = [bs ''GET'', bs ''/metrics'']"

lemma route_paths_distinct:
  "bs ''/ready'' \<noteq> bs ''/health''" "bs ''/ready'' \<noteq> bs ''/healthz''" "bs ''/readyz'' \<noteq> bs ''/health''"
  "bs ''/readyz'' \<noteq> bs ''/healthz''" "bs ''/ready'' \<noteq> bs ''/metrics''" "bs ''/readyz'' \<noteq> bs ''/metrics''"
  "bs ''/metrics'' \<noteq> bs ''/health''" "bs ''/metrics'' \<noteq> bs ''/healthz''"
  by (simp_all add: bs_def)

lemma content_types [simp]:
  "CR \<notin> set (bs ''text/plain'')" "CR \<notin> set (bs ''application/json'')"
  "CR \<notin> set (bs ''text/plain; version=0.0.4'')"
  by (simp_all add: bs_def)

lemma length_json_status [simp]: "length (json_status s) = 13 + length s"
  by (simp add: json_status_def)

lemma snd_send_http [simp]: "snd (send_http hc status ct body) = http_text status ct body"
  by (simp add: send_http_def Let_def split: option.split)

text \<open>A scrape is the only request that needs the metrics text.\<close>

lemma handle_http_scrape:
  assumes "hc_blocking hc = None" and "hc_request hc = Some (Inr line)" and "is_scrape (split_whitespace line)"
  shows "handle_http enc m s h hc =
    (case gather enc m s of
       Panic \<Rightarrow> Some Panic
     | Done txt \<Rightarrow> Some (Done (send_http hc 200 (bs ''text/plain; version=0.0.4'') txt)))"
  using assms route_paths_distinct
  by (cases "split_whitespace line" rule: remdups_adj.cases) (auto simp: handle_http_def is_scrape_def)

text \<open>Any other request is answered at once, with a short body.\<close>

definition brief :: "'i http_conn \<Rightarrow> nat \<Rightarrow> (('i + unit) \<times> bytes) outcome option \<Rightarrow> bool" where
  "brief hc status r \<longleftrightarrow>
     (\<exists>ct body. r = Some (Done (send_http hc status ct body)) \<and> CR \<notin> set ct \<and> length body < 30)"

lemma brief_send:
  "CR \<notin> set ct \<Longrightarrow> length body < 30 \<Longrightarrow> brief hc status (Some (Done (send_http hc status ct body)))"
  by (auto simp: brief_def)

lemma handle_http_brief:
  assumes "hc_blocking hc = None" and "hc_request hc = Some (Inr line)"
    and "\<not> is_scrape (split_whitespace line)"
  shows "brief hc (route_status (hs_ready h) (split_whitespace line)) (handle_http enc m s h hc)"
proof (cases "split_whitespace line" rule: remdups_adj.cases)
  case (3 meth path ps)
  with assms route_paths_distinct show ?thesis
    by (auto simp: handle_http_def route_status_def is_ready_def is_scrape_def intro!: brief_send)
qed (use assms in \<open>auto simp: handle_http_def route_status_def intro!: brief_send\<close>)

lemma route_status_scrape: "is_scrape parts \<Longrightarrow> route_status ready parts = 200"
  by (cases parts rule: remdups_adj.cases) (auto simp: is_scrape_def route_status_def)

text \<open>What a client reads off the bytes written on its connection.\<close>

lemma handle_http_answer:
  assumes "hc_blocking hc = None" and "hc_request hc = Some (Inr line)"
    and "is_scrape (split_whitespace line) \<Longrightarrow> \<exists>txt. gather enc m s = Done txt \<and> length txt < 2 ^ 64"
  shows "\<exists>res out ct body. handle_http enc m s h hc = Some (Done (res, out)) \<and>
    read_http out = Some (route_status (hs_ready h) (split_whitespace line), ct, body)"
proof -
  obtain status ct body where h1: "handle_http enc m s h hc = Some (Done (send_http hc status ct body))"
      and st: "status = route_status (hs_ready h) (split_whitespace line)"
      and b: "CR \<notin> set ct" "length body < 2 ^ 64"
  proof (cases "is_scrape (split_whitespace line)")
    case True
    then obtain doc where "gather enc m s = Done doc" "length doc < 2 ^ 64" using assms(3) by blast
    with handle_http_scrape [OF assms(1,2) True, of enc m s h] route_status_scrape [OF True, of "hs_ready h"]
    show thesis by (intro that [of 200 "bs ''text/plain; version=0.0.4''" doc]) simp_all
  next
    case False
    from handle_http_brief [OF assms(1,2) False, where enc = enc and m = m and s = s and h = h] show thesis
      unfolding brief_def using that by fastforce
  qed
  obtain res out where "send_http hc status ct body = (res, out)" by fastforce
  moreover from this have "out = http_text status ct body" using snd_send_http [of hc status ct body] by simp
  ultimately show ?thesis using h1 st read_http_text [OF b] by auto
qed

text \<open>What a body shows when it is a scrape of given metrics and storage counters.\<close>

definition scraped :: "metrics \<Rightarrow> 'db storage \<Rightarrow> str \<Rightarrow> bool" where
  "scraped m s body \<longleftrightarrow>
     list_all (\<lambda>(n, v). metric_sample n body = Some (of_nat v)) (exported_counters m) \<and>
     metric_sample (bs ''petracache_active_connections'') body = Some (of_int (m_active_connections m)) \<and>
     metric_sample (bs ''petracache_expired_keys_removed_total'') body = Some (st_expired_keys_removed s) \<and>
     metric_sample (bs ''petracache_ttl_compaction_removed_total'') body = Some (st_ttl_compaction_removed s)"

lemma endpoint_answers:
  assumes "text_encoder enc" and "hc_blocking hc = None" and "hc_request hc = Some (Inr line)"
    and "\<And>txt. gather enc m s = Done txt \<Longrightarrow> length txt < 2 ^ 64"
    and "list_all (\<lambda>(n, v). v \<le> 2 ^ 53) (exported_counters m)"
    and "0 \<le> m_active_connections m" and "m_active_connections m \<le> 2 ^ 53"
  shows "\<exists>res out ct body. handle_http enc m s h hc = Some (Done (res, out)) \<and>
    read_http out = Some (route_status (hs_ready h) (split_whitespace line), ct, body) \<and>
    (is_scrape (split_whitespace line) \<longrightarrow> scraped m s body)"
proof (cases "is_scrape (split_whitespace line)")
  case True
  obtain doc where g: "gather enc m s = Done doc" using text_encoder.gathers [OF assms(1)] by blast
  let ?ct = "bs ''text/plain; version=0.0.4''"
  obtain res out where sent: "send_http hc 200 ?ct doc = (res, out)" by fastforce
  with snd_send_http [of hc 200 ?ct doc] have "out = http_text 200 ?ct doc" by simp
  then have "read_http out = Some (200, ?ct, doc)"
    using read_http_text [OF content_types(3) assms(4) [OF g]] by simp
  moreover have "handle_http enc m s h hc = Some (Done (res, out))"
    using handle_http_scrape [OF assms(2,3) True, of enc m s h] g sent by simp
  moreover have "list_all (\<lambda>(n, v). metric_sample n doc = Some (of_nat v)) (exported_counters m)"
    using text_encoder.counter_sample [OF assms(1) g] assms(5) by (fastforce simp: list_all_iff)
  ultimately show ?thesis
    using text_encoder.gauge_sample [OF assms(1) g assms(6,7)] gather_samples [OF g]
      route_status_scrape [OF True, of "hs_ready h"]
    unfolding scraped_def gauge_name_def expired_name_def compaction_name_def by auto
next
  case False
  with handle_http_answer [OF assms(2,3)] show ?thesis by blast
qed

text \<open>The scrape of a fresh server by the plain encoder.\<close>

definition scrape_line :: str where
  "scrape_line = bs ''GET /metrics HTTP/1.1'' @ crlf"

lemma scrape_line_scrapes: "is_scrape (split_whitespace scrape_line)"
  by (simp add: run_simps is_scrape_def scrape_line_def)

lemma plain_text_length:
  "plain_text r vs = Inr b \<Longrightarrow>
     length b \<le> sum_list (map (\<lambda>(n, v). length n + 2 + (case v of None \<Rightarrow> 0 | Some i \<Rightarrow> length (to_decimal (nat i)))) vs)"
  unfolding plain_text_def by (induction vs arbitrary: b) (fastforce split: option.splits)+

lemma fresh_text_length:
  assumes "gather plain_encoder metrics_new (fresh_storage mem_empty) = Done doc"
  shows "length doc < 2 ^ 64"
proof -
  obtain out where enc: "plain_encoder metrics_new = Inr out"
      and doc: "doc = out @ LF # gather_tail (fresh_storage mem_empty)"
    using gather_cases [OF assms] by blast
  have "length out < 2000"
    using plain_text_length [OF enc [unfolded registry_encoder_def]]
    by (simp add: metric_names_def object_values_def metrics_new_def to_decimal.simps)
  moreover have "length (gather_tail (fresh_storage mem_empty)) < 2000"
    by (simp add: gather_tail_def expired_name_def compaction_name_def fresh_storage_def to_decimal.simps)
  ultimately show ?thesis by (simp add: doc)
qed

lemma fresh_counters: "list_all (\<lambda>(n, v). v \<le> 2 ^ 53) (exported_counters metrics_new)"
  by (simp add: exported_counters_def metrics_new_def)

section \<open>The loop\<close>

text \<open>
  The turn at which the loop stops making progress, and how: the flag is down, a client stays silent,
  or \<open>gather\<close> panics.
\<close>

definition turn_end :: "(metrics \<Rightarrow> 'x + bytes) \<Rightarrow> ('db, 'i) health_turn \<Rightarrow> health_status option" where
  "turn_end enc t =
     (if \<not> hs_running (ht_server t) then Some Stopped
      else (case ht_accept t of
              HttpConn hc \<Rightarrow>
                if hc_blocking hc \<noteq> None then None
                else (case hc_request hc of
                        None \<Rightarrow> Some Hanging
                      | Some (Inl e) \<Rightarrow> None
                      | Some (Inr line) \<Rightarrow>
                          if is_scrape (split_whitespace line) \<and> gather enc (ht_metrics t) (ht_storage t) = Panic
                          then Some Died else None)
            | _ \<Rightarrow> None))"

definition serves :: "(metrics \<Rightarrow> 'x + bytes) \<Rightarrow> ('db, 'i) health_turn list \<Rightarrow> ('db, 'i) health_turn list" where
  "serves enc turns = takeWhile (\<lambda>t. turn_end enc t = None) turns"

text \<open>The connections of a sequence of turns, with the turn they came in.\<close>

fun http_conns :: "('db, 'i) health_turn list \<Rightarrow> (('db, 'i) health_turn \<times> 'i http_conn) list" where
  "http_conns [] = []"
| "http_conns (t # turns) =
     (case ht_accept t of HttpConn hc \<Rightarrow> (t, hc) # http_conns turns | _ \<Rightarrow> http_conns turns)"

text \<open>
  What was written on a connection: nothing if the request could not be read, and otherwise a
  response with the status of its route, which shows the readiness at that turn.
\<close>

definition conn_answered :: "('db, 'i) health_turn \<times> 'i http_conn \<Rightarrow> bytes \<Rightarrow> bool" where
  "conn_answered tc out \<longleftrightarrow>
     (let (t, hc) = tc
      in if hc_blocking hc \<noteq> None then out = []
         else (case hc_request hc of
                 Some (Inr line) \<Rightarrow>
                   \<exists>ct body. read_http out =
                     Some (route_status (hs_ready (ht_server t)) (split_whitespace line), ct, body)
               | _ \<Rightarrow> out = []))"

lemma turn_served:
  assumes "turn_end enc t = None" and "ht_accept t = HttpConn hc"
    and "\<And>txt. gather enc (ht_metrics t) (ht_storage t) = Done txt \<Longrightarrow> length txt < 2 ^ 64"
  shows "\<exists>res out. handle_http enc (ht_metrics t) (ht_storage t) (ht_server t) hc = Some (Done (res, out)) \<and>
    conn_answered (t, hc) out"
proof (cases "hc_blocking hc")
  case None
  show ?thesis
  proof (cases "\<exists>line. hc_request hc = Some (Inr line)")
    case True
    then obtain line where l: "hc_request hc = Some (Inr line)" by blast
    have "\<exists>txt. gather enc (ht_metrics t) (ht_storage t) = Done txt \<and> length txt < 2 ^ 64"
      if "is_scrape (split_whitespace line)"
      using that assms None l
      by (cases "gather enc (ht_metrics t) (ht_storage t)") (auto simp: turn_end_def split: if_splits)
    from handle_http_answer [OF None l this, of "ht_server t"] None l show ?thesis
      by (auto simp: conn_answered_def)
  next
    case False
    with None assms show ?thesis
      by (auto simp: turn_end_def handle_http_def conn_answered_def split: option.splits sum.splits if_splits)
  qed
qed (simp add: handle_http_def conn_answered_def)

lemma turn_ends:
  assumes "turn_end enc t = Some e"
  shows "health_loop enc (t # turns) = ([], e)"
proof (cases "hs_running (ht_server t)")
  case True
  with assms obtain hc where hc: "ht_accept t = HttpConn hc" "hc_blocking hc = None"
    by (auto simp: turn_end_def split: http_accept.splits if_splits)
  show ?thesis
  proof (cases "hc_request hc")
    case None
    with True hc assms show ?thesis by (simp add: turn_end_def handle_http_def)
  next
    case (Some r)
    with True hc assms obtain line where l: "hc_request hc = Some (Inr line)"
        "is_scrape (split_whitespace line)" "gather enc (ht_metrics t) (ht_storage t) = Panic" "e = Died"
      by (auto simp: turn_end_def split: sum.splits if_splits)
    with True hc show ?thesis
      using handle_http_scrape [OF hc(2) l(1,2), of enc "ht_metrics t" "ht_storage t" "ht_server t"] by simp
  qed
qed (use assms in \<open>simp add: turn_end_def\<close>)

lemma turn_died:
  "health_loop enc [t] = (outs, Died) \<Longrightarrow> gather enc (ht_metrics t) (ht_storage t) = Panic"
  by (auto simp: handle_http_def Let_def
      split: http_accept.splits option.splits outcome.splits sum.splits if_splits prod.splits)

lemma health_loop_step:
  assumes "turn_end enc t = None"
    and "\<And>txt. gather enc (ht_metrics t) (ht_storage t) = Done txt \<Longrightarrow> length txt < 2 ^ 64"
  shows "snd (health_loop enc (t # turns)) = snd (health_loop enc turns) \<and>
    (case ht_accept t of
       HttpConn hc \<Rightarrow>
         \<exists>out. fst (health_loop enc (t # turns)) = out # fst (health_loop enc turns) \<and> conn_answered (t, hc) out
     | _ \<Rightarrow> fst (health_loop enc (t # turns)) = fst (health_loop enc turns))"
proof -
  have run: "hs_running (ht_server t)" using assms(1) by (auto simp: turn_end_def split: if_splits)
  show ?thesis
  proof (cases "ht_accept t")
    case (HttpConn hc)
    from turn_served [OF assms(1) this assms(2)] obtain res out where
        "handle_http enc (ht_metrics t) (ht_storage t) (ht_server t) hc = Some (Done (res, out))"
        "conn_answered (t, hc) out" by blast
    with run HttpConn show ?thesis by (simp add: Let_def split: prod.split)
  qed (use run in simp_all)
qed

lemma health_loop_serves:
  assumes "\<And>t txt. t \<in> set turns \<Longrightarrow> gather enc (ht_metrics t) (ht_storage t) = Done txt \<Longrightarrow> length txt < 2 ^ 64"
  shows "list_all2 conn_answered (http_conns (serves enc turns)) (fst (health_loop enc turns)) \<and>
    snd (health_loop enc turns) =
      (case drop (length (serves enc turns)) turns of [] \<Rightarrow> Polling | t # ts \<Rightarrow> the (turn_end enc t))"
  using assms
proof (induction turns)
  case Nil
  show ?case by (simp add: serves_def)
next
  case (Cons t turns)
  show ?case
  proof (cases "turn_end enc t")
    case None
    then have sv: "serves enc (t # turns) = t # serves enc turns" by (simp add: serves_def)
    have "snd (health_loop enc (t # turns)) = snd (health_loop enc turns) \<and>
      (case ht_accept t of
         HttpConn hc \<Rightarrow>
           \<exists>out. fst (health_loop enc (t # turns)) = out # fst (health_loop enc turns) \<and> conn_answered (t, hc) out
       | _ \<Rightarrow> fst (health_loop enc (t # turns)) = fst (health_loop enc turns))"
      using Cons.prems [of t] by (intro health_loop_step [OF None]) (simp only: list.set_intros)
    with Cons.IH [OF Cons.prems [OF list.set_intros(2)]] show ?thesis
      by (auto simp: sv simp del: health_loop.simps split: http_accept.splits)
  next
    case (Some e)
    then show ?thesis using turn_ends [OF Some, of turns] by (simp add: serves_def del: health_loop.simps)
  qed
qed

lemma health_loop_append:
  "snd (health_loop enc xs) = Polling \<Longrightarrow>
     health_loop enc (xs @ ys) = (fst (health_loop enc xs) @ fst (health_loop enc ys), snd (health_loop enc ys))"
proof (induction xs)
  case (Cons t xs)
  then show ?case by (auto simp: Let_def split: if_splits http_accept.splits option.splits outcome.splits prod.splits)
qed simp

text \<open>A turn of a running loop, with the metrics and the storage of a fresh server.\<close>

definition fresh_turn :: "bool \<Rightarrow> 'i http_conn \<Rightarrow> (mem_db, 'i) health_turn" where
  "fresh_turn ready hc =
     \<lparr>ht_server = set_ready ready health_new, ht_metrics = metrics_new, ht_storage = fresh_storage mem_empty,
      ht_accept = HttpConn hc\<rparr>"

definition ready_conn :: "unit http_conn" where
  "ready_conn = request_conn (bs ''GET /ready HTTP/1.1'' @ crlf)"

definition stopped_turn :: "(mem_db, unit) health_turn" where
  "stopped_turn = (fresh_turn True ready_conn)\<lparr>ht_server := health_stop health_new\<rparr>"

lemma nothing_to_gather: "gather (\<lambda>m. Inl ()) m s = Panic"
  by (simp add: gather_def unwrap_def)

section \<open>Properties\<close>

text \<open>
  Every readable request is answered once, with the status the routes prescribe, and the answer
  can be read back: the response text splits into status, content type and a body of exactly the
  announced length.  In particular \<open>GET /ready\<close> is answered 200 exactly when the server was marked
  ready and 503 otherwise, and any method but \<open>GET\<close>, for any path, is answered 405.  The metrics have
  to be printable for \<open>GET /metrics\<close> only.
\<close>

theorem health_response_exact:
  assumes "hc_blocking hc = None" and "hc_request hc = Some (Inr line)"
    and "is_scrape (split_whitespace line) \<Longrightarrow> \<exists>txt. gather enc m s = Done txt \<and> length txt < 2 ^ 64"
  shows "\<exists>res out ct body. handle_http enc m s h hc = Some (Done (res, out)) \<and>
    read_http out = Some (route_status (hs_ready h) (split_whitespace line), ct, body)"
  by (rule handle_http_answer [OF assms])

theorem health_response_exact_witness:
  "\<exists>res out ct body. handle_http (\<lambda>m. Inl () :: unit + bytes) metrics_new (fresh_storage mem_empty) health_new
       (request_conn (bs ''GET /ready HTTP/1.1'' @ crlf)) = Some (Done (res, out)) \<and>
     read_http out = Some (503, ct, body)"
proof -
  let ?l = "bs ''GET /ready HTTP/1.1'' @ crlf"
  have r: "route_status (hs_ready health_new) (split_whitespace ?l) = 503"
    by (simp add: run_simps route_status_def)
  have n: "\<not> is_scrape (split_whitespace ?l)" by (simp add: run_simps is_scrape_def)
  have c: "hc_blocking (request_conn ?l) = None" "hc_request (request_conn ?l) = Some (Inr ?l)"
    by (simp_all add: request_conn_def)
  from health_response_exact [OF c, of "\<lambda>m. Inl () :: unit + bytes" metrics_new "fresh_storage mem_empty" health_new]
    n r show ?thesis by simp
qed

text \<open>
  A scrape shows the truth: on \<open>GET /metrics\<close> the client receives a response with status 200, and
  reading the samples off its body gives, for each of the seventeen counters, exactly the value it
  had, for the gauge the number of active connections, and for the two counters kept outside the
  registry the numbers of lazy and of compaction removals.
\<close>

theorem scrape_exact:
  assumes "text_encoder enc" and "hc_blocking hc = None" and "hc_request hc = Some (Inr line)"
    and "is_scrape (split_whitespace line)"
    and "\<And>txt. gather enc m s = Done txt \<Longrightarrow> length txt < 2 ^ 64"
    and "list_all (\<lambda>(n, v). v \<le> 2 ^ 53) (exported_counters m)"
    and "0 \<le> m_active_connections m" and "m_active_connections m \<le> 2 ^ 53"
  shows "\<exists>res out ct body. handle_http enc m s h hc = Some (Done (res, out)) \<and>
    read_http out = Some (200, ct, body) \<and>
    list_all (\<lambda>(n, v). metric_sample n body = Some (of_nat v)) (exported_counters m) \<and>
    metric_sample (bs ''petracache_active_connections'') body = Some (of_int (m_active_connections m)) \<and>
    metric_sample (bs ''petracache_expired_keys_removed_total'') body = Some (st_expired_keys_removed s) \<and>
    metric_sample (bs ''petracache_ttl_compaction_removed_total'') body = Some (st_ttl_compaction_removed s)"
proof -
  have "\<exists>res out ct body. handle_http enc m s h hc = Some (Done (res, out)) \<and>
      read_http out = Some (route_status (hs_ready h) (split_whitespace line), ct, body) \<and>
      (is_scrape (split_whitespace line) \<longrightarrow> scraped m s body)"
    by (rule endpoint_answers [OF assms(1-3)]) (use assms(5-8) in auto)
  with assms(4) show ?thesis by (auto simp: scraped_def route_status_scrape)
qed

theorem scrape_exact_witness:
  "\<exists>res out ct body. handle_http plain_encoder metrics_new (fresh_storage mem_empty) health_new
       (request_conn scrape_line) = Some (Done (res, out)) \<and>
     read_http out = Some (200, ct, body) \<and>
     metric_sample (bs ''petracache_expired_keys_removed_total'') body = Some 0"
proof -
  let ?s = "fresh_storage mem_empty"
  have c: "hc_blocking (request_conn scrape_line) = None" "hc_request (request_conn scrape_line) = Some (Inr scrape_line)"
    by (simp_all add: request_conn_def)
  have gz: "m_active_connections metrics_new = 0" "st_expired_keys_removed ?s = 0"
    by (simp_all add: metrics_new_def fresh_storage_def)
  from scrape_exact [OF plain.text_encoder_axioms c scrape_line_scrapes, of metrics_new ?s health_new]
    fresh_text_length fresh_counters gz show ?thesis by fastforce
qed

text \<open>
  C36: The health server works its connections off in order: for every turn up to the first at which the
  stop flag is down, a client stays silent or \<open>gather\<close> panics, the connection accepted in it, if
  any, is answered with the status of its route and the readiness of that turn, and nothing is
  written if its request could not be read; that turn then decides whether the thread has returned,
  hangs or has died, and without one the thread is still polling.
\<close>

theorem health_loop_exact:
  assumes "\<And>t txt. t \<in> set turns \<Longrightarrow> gather enc (ht_metrics t) (ht_storage t) = Done txt \<Longrightarrow> length txt < 2 ^ 64"
  shows "list_all2 conn_answered (http_conns (serves enc turns)) (fst (health_loop enc turns)) \<and>
    snd (health_loop enc turns) =
      (case drop (length (serves enc turns)) turns of [] \<Rightarrow> Polling | t # ts \<Rightarrow> the (turn_end enc t))"
  by (rule health_loop_serves [OF assms])

theorem health_loop_exact_witness:
  "\<exists>out ct body.
     fst (health_loop (\<lambda>m. Inl () :: unit + bytes) [fresh_turn True ready_conn, stopped_turn]) = [out] \<and>
     read_http out = Some (200, ct, body) \<and>
     snd (health_loop (\<lambda>m. Inl () :: unit + bytes) [fresh_turn True ready_conn, stopped_turn]) = Stopped"
proof -
  let ?enc = "\<lambda>m. Inl () :: unit + bytes" and ?t = "fresh_turn True ready_conn"
  have r: "turn_end ?enc ?t = None" "turn_end ?enc stopped_turn = Some Stopped"
    "route_status True (split_whitespace (bs ''GET /ready HTTP/1.1'' @ crlf)) = 200"
    by (simp_all add: run_simps turn_end_def fresh_turn_def stopped_turn_def ready_conn_def request_conn_def
        is_scrape_def route_status_def)
  then have s: "serves ?enc [?t, stopped_turn] = [?t]" by (simp add: serves_def)
  have c: "http_conns [?t] = [(?t, ready_conn)]" by (simp add: fresh_turn_def)
  have a: "conn_answered (?t, ready_conn) out \<longleftrightarrow> (\<exists>ct body. read_http out = Some (200, ct, body))" for out
    using r(3) by (simp add: conn_answered_def ready_conn_def request_conn_def fresh_turn_def set_ready_def)
  from health_loop_exact [of "[?t, stopped_turn]" ?enc] show ?thesis
    by (auto simp: nothing_to_gather s c r a list_all2_Cons1 simp del: health_loop.simps http_conns.simps)
qed

text \<open>
  One silent client takes the health endpoint down: connections are handled in the thread that
  accepts them and reading has no timeout, so from a client that connects and sends no line the
  thread never comes back.  Whatever is asked afterwards is not answered, readiness probes included,
  and the stop flag is not seen any more.
\<close>

theorem silent_client_blocks_health:
  assumes "snd (health_loop enc turns) = Polling" and "hs_running (ht_server t)"
    and "ht_accept t = HttpConn hc" and "hc_blocking hc = None" and "hc_request hc = None"
  shows "health_loop enc (turns @ t # later) = (fst (health_loop enc turns), Hanging)"
  using assms by (simp add: health_loop_append handle_http_def)

theorem silent_client_blocks_health_witness:
  "snd (health_loop (\<lambda>m. Inl () :: unit + bytes)
      [fresh_turn True silent_conn, fresh_turn True (request_conn (bs ''GET /ready HTTP/1.1'' @ crlf))]) = Hanging"
  using silent_client_blocks_health [of "\<lambda>m. Inl () :: unit + bytes" "[]" "fresh_turn True silent_conn" silent_conn]
  by (simp add: fresh_turn_def set_ready_def health_new_def silent_conn_def del: health_loop.simps(2))

end
