(* ===== verification/Startup.thy ===== *)
theory Startup
  imports Server Health
begin

text \<open>
  Opening the storage (\<open>RocksStorage::open\<close> of \<open>src/storage/rocks.rs\<close>) and starting the process
  (\<open>src/main.rs\<close>).  The options object of the \<open>rust_rocksdb\<close> crate is the record of the settings the
  program makes; the file system, the opening of the database, the parsing and binding of addresses,
  the building of the runtime and the \<open>prometheus\<close> crate are parameters.  What the process does is a list of actions.  The
  signal task and the health thread run beside these actions; theory \<open>Process\<close> has them.
\<close>

section \<open>Opening the storage\<close>

datatype log_level = Debug_Level | Info_Level | Warn_Level | Error_Level | Fatal_Level | Header_Level

datatype compression = No_Compression | Lz4

record db_options =
  do_create_if_missing :: bool
  do_max_background_jobs :: i32
  do_write_buffer_size :: usize
  do_max_write_buffer_number :: i32
  do_target_file_size_base :: u64
  do_level_compaction :: bool
  do_log_level :: log_level
  do_max_log_file_size :: usize
  do_keep_log_file_num :: usize
  do_compression :: compression
  do_block_cache_size :: usize
  do_bloom_filter_bits :: nat
  do_cache_index_and_filter_blocks :: bool
  do_pin_l0_blocks :: bool
  do_block_size :: usize
  do_ttl_filter :: bool

definition parse_log_level :: "str \<Rightarrow> log_level" where
  "parse_log_level level =
     (let l = str_to_lowercase level
      in if l = bs ''debug'' then Debug_Level
         else if l = bs ''info'' then Info_Level
         else if l = bs ''warn'' then Warn_Level
         else if l = bs ''fatal'' then Fatal_Level
         else if l = bs ''header'' then Header_Level
         else Error_Level)"

definition db_options_of :: "storage_config \<Rightarrow> db_options" where
  "db_options_of cfg =
     \<lparr>do_create_if_missing = True,
      do_max_background_jobs = cf_max_background_jobs cfg,
      do_write_buffer_size = cf_write_buffer_size cfg,
      do_max_write_buffer_number = cf_max_write_buffer_number cfg,
      do_target_file_size_base = cf_target_file_size_base cfg,
      do_level_compaction = True,
      do_log_level = parse_log_level (cf_rocksdb_log_level cfg),
      do_max_log_file_size = cf_rocksdb_max_log_file_size cfg,
      do_keep_log_file_num = cf_rocksdb_keep_log_file_num cfg,
      do_compression = (if cf_enable_compression cfg then Lz4 else No_Compression),
      do_block_cache_size = cf_block_cache_size cfg,
      do_bloom_filter_bits = 10,
      do_cache_index_and_filter_blocks = True,
      do_pin_l0_blocks = True,
      do_block_size = 16 * 1024,
      do_ttl_filter = cf_enable_ttl_compaction cfg\<rparr>"

text \<open>
  \<open>create_parent path\<close> is \<open>None\<close> when the path has no parent, and otherwise the result of creating
  the parent's directories; \<open>io_msg\<close> and \<open>db_open\<close> are the text of its error and \<open>DB::open\<close>.  The two
  global counters start at zero.
\<close>

definition storage_open ::
    "(str \<Rightarrow> ('i + unit) option) \<Rightarrow> ('i \<Rightarrow> str) \<Rightarrow> (db_options \<Rightarrow> str \<Rightarrow> 'e + 'db) \<Rightarrow> storage_config \<Rightarrow>
      'e storage_error + 'db storage" where
  "storage_open create_parent io_msg db_open cfg =
     (let opts = db_options_of cfg
      in (case create_parent (cf_db_path cfg) of
            Some (Inl e) \<Rightarrow> Inl (Internal (bs ''Failed to create directory: '' @ io_msg e))
          | _ \<Rightarrow>
            (case db_open opts (cf_db_path cfg) of
               Inl e \<Rightarrow> Inl (RocksDb e)
             | Inr d \<Rightarrow>
                 Inr \<lparr>st_db = d, st_write_opts = \<lparr>wo_disable_wal = True\<rparr>,
                   st_ttl_filter = do_ttl_filter opts,
                   st_expired_keys_removed = 0, st_ttl_compaction_removed = 0, st_clock = 0\<rparr>)))"

section \<open>Starting the process\<close>

text \<open>
  What the process does, in order; \<open>Bind_Server\<close> is the attempt to parse and bind the address of the
  server, \<open>Serve\<close> the accept loop with the streams it admitted.
\<close>

datatype 'st startup_action =
    Load_File str
  | Load_Env
  | Worker_Threads usize
  | Open_Storage
  | Spawn_Health str
  | Mark_Ready
  | Handle_Signals
  | Bind_Server str
  | Serve "'st list"
  | Log_Server_Error

text \<open>How \<open>main\<close> ends: \<open>Ok(())\<close>, or an error with its text.\<close>

datatype exit_status = Exit_Ok | Exit_Error str

record ('db, 'e, 'sem, 'st, 'ae, 'i, 't, 'addr, 'x, 'c, 'reg, 'p) boot =
  bt_read_file :: "str \<Rightarrow> 'i + str"
  bt_toml :: "str \<Rightarrow> 't + config"
  bt_toml_msg :: "'t \<Rightarrow> str"
  bt_env :: "str \<Rightarrow> bytes option"
  bt_runtime_error :: "str option"
  bt_create_parent :: "str \<Rightarrow> ('i + unit) option"
  bt_io_msg :: "'i \<Rightarrow> str"
  bt_db_open :: "db_options \<Rightarrow> str \<Rightarrow> 'e + 'db"
  bt_db_msg :: "'e \<Rightarrow> str"
  bt_semaphore :: "'sem semaphore_crate"
  bt_parse_addr :: "str \<Rightarrow> 'x + 'addr"
  bt_bind_error :: "'addr \<Rightarrow> 'x option"
  bt_accepts :: "('st, 'ae) accept_event list"
  bt_prometheus :: "('c, 'reg, 'p) prometheus_crate"

definition async_main ::
    "('db, 'e, 'sem, 'st, 'ae, 'i, 't, 'addr, 'x, 'c, 'reg, 'p) boot \<Rightarrow> config \<Rightarrow>
      (exit_status \<times> 'st startup_action list) outcome" where
  "async_main B cfg =
     (case storage_open (bt_create_parent B) (bt_io_msg B) (bt_db_open B) (cfg_storage cfg) of
        Inl e \<Rightarrow>
          Done (Exit_Error (bs ''Failed to open RocksDB: '' @ storage_error_to_string (bt_db_msg B) e),
            [Open_Storage])
      | Inr storage \<Rightarrow>
     (case metrics_create (bt_prometheus B) of
        Panic \<Rightarrow> Panic
      | Done metrics \<Rightarrow>
      (let enabled = mt_enabled (cfg_metrics cfg);
           health = (if enabled then [Spawn_Health (mt_listen_addr (cfg_metrics cfg))] else [])
       in (case server_new (bt_semaphore B) (cfg_server cfg) storage metrics_new False of
             Panic \<Rightarrow> Panic
           | Done server \<Rightarrow>
           (let before = [Open_Storage] @ health @ (if enabled then [Mark_Ready] else []) @
                  [Handle_Signals, Bind_Server (sc_listen_addr (srv_config server))]
            in (case run_server (bt_semaphore B) (bt_parse_addr B) (bt_bind_error B) (bt_accepts B) server of
                  Inl e \<Rightarrow> Done (Exit_Ok, before @ [Log_Server_Error])
                | Inr (srv, spawned, stopped) \<Rightarrow> Done (Exit_Ok, before @ [Serve spawned])))))))"

definition main_process ::
    "('db, 'e, 'sem, 'st, 'ae, 'i, 't, 'addr, 'x, 'c, 'reg, 'p) boot \<Rightarrow> str list \<Rightarrow>
      (exit_status \<times> 'st startup_action list) outcome" where
  "main_process B args =
     (let (loaded, load) =
        (case slice_get args 1 of
           Some path \<Rightarrow>
             ((from_file (bt_read_file B) (bt_io_msg B) (bt_toml B) (bt_toml_msg B) path
                 :: ('e, 'i) petracache_error + config), [Load_File path])
         | None \<Rightarrow> (Inr (from_env (bt_env B)), [Load_Env]))
      in (case loaded of
            Inl e \<Rightarrow> Done (Exit_Error (petracache_error_to_string (bt_db_msg B) (bt_io_msg B) e), load)
          | Inr cfg \<Rightarrow>
          (let n = sc_worker_threads (cfg_server cfg);
               threads = (if 0 < n then [Worker_Threads n] else [])
           in (case bt_runtime_error B of
                 Some msg \<Rightarrow> Done (Exit_Error msg, load @ threads)
               | None \<Rightarrow>
               (case async_main B cfg of
                  Panic \<Rightarrow> Panic
                | Done (status, actions) \<Rightarrow> Done (status, load @ threads @ actions))))))"

lemmas startup_defs = parse_log_level_def db_options_of_def storage_open_def async_main_def
  main_process_def

lemmas [run_simps] = startup_defs

section \<open>Properties\<close>

text \<open>A machine on which everything works but the address is taken.\<close>

definition busy_port :: "(mem_db, str, nat, nat, unit, str, str, str, str, str, str list, unit) boot" where
  "busy_port =
     \<lparr>bt_read_file = (\<lambda>p. Inl (bs ''no file'')), bt_toml = (\<lambda>s. Inl (bs ''bad'')), bt_toml_msg = id,
      bt_env = (\<lambda>v. None), bt_runtime_error = None, bt_create_parent = (\<lambda>p. Some (Inr ())),
      bt_io_msg = id, bt_db_open = (\<lambda>opts p. Inr mem_empty), bt_db_msg = id,
      bt_semaphore = nat_semaphore, bt_parse_addr = Inr, bt_bind_error = (\<lambda>a. Some (bs ''in use'')),
      bt_accepts = [], bt_prometheus = names_registry\<rparr>"

text \<open>The place of an action in the order the source has them.\<close>

fun stage :: "'st startup_action \<Rightarrow> nat" where
  "stage (Load_File path) = 0"
| "stage Load_Env = 0"
| "stage (Worker_Threads n) = 1"
| "stage Open_Storage = 2"
| "stage (Spawn_Health addr) = 3"
| "stage Mark_Ready = 4"
| "stage Handle_Signals = 5"
| "stage (Bind_Server addr) = 6"
| "stage (Serve streams) = 7"
| "stage Log_Server_Error = 7"

text \<open>
  The file named on the command line, or the environment without one, gives the configuration.
\<close>

definition configured ::
    "('db, 'e, 'sem, 'st, 'ae, 'i, 't, 'addr, 'x, 'c, 'reg, 'p) boot \<Rightarrow> str list \<Rightarrow> config \<Rightarrow> bool" where
  "configured B args cfg \<longleftrightarrow>
     (case args of
        _ # path # _ \<Rightarrow> \<exists>text. bt_read_file B path = Inr text \<and> bt_toml B text = Inr cfg
      | _ \<Rightarrow> cfg = from_env (bt_env B))"

text \<open>The start succeeds with it: the runtime is built and the storage opens.\<close>

definition started ::
    "('db, 'e, 'sem, 'st, 'ae, 'i, 't, 'addr, 'x, 'c, 'reg, 'p) boot \<Rightarrow> str list \<Rightarrow> config \<Rightarrow> 'db storage \<Rightarrow> bool" where
  "started B args cfg storage \<longleftrightarrow>
     configured B args cfg \<and> bt_runtime_error B = None \<and>
     storage_open (bt_create_parent B) (bt_io_msg B) (bt_db_open B) (cfg_storage cfg) = Inr storage"

text \<open>The configured address can be parsed and bound.\<close>

definition bound :: "('db, 'e, 'sem, 'st, 'ae, 'i, 't, 'addr, 'x, 'c, 'reg, 'p) boot \<Rightarrow> config \<Rightarrow> bool" where
  "bound B cfg \<longleftrightarrow>
     (\<exists>addr. bt_parse_addr B (sc_listen_addr (cfg_server cfg)) = Inr addr \<and> bt_bind_error B addr = None)"

text \<open>What the actions of a start say about it, for a configuration that has been loaded.\<close>

definition start_story ::
    "('db, 'e, 'sem, 'st, 'ae, 'i, 't, 'addr, 'x, 'c, 'reg, 'p) boot \<Rightarrow> config \<Rightarrow> exit_status \<Rightarrow>
      'st startup_action list \<Rightarrow> bool" where
  "start_story B cfg status acts \<longleftrightarrow>
     status = Exit_Ok \<and> (Mark_Ready \<in> set acts \<longleftrightarrow> mt_enabled (cfg_metrics cfg)) \<and>
     (\<forall>a. Bind_Server a \<in> set acts \<longleftrightarrow> a = sc_listen_addr (cfg_server cfg)) \<and>
     ((\<exists>streams. Serve streams \<in> set acts) \<longleftrightarrow> bound B cfg) \<and> (Log_Server_Error \<in> set acts \<longleftrightarrow> \<not> bound B cfg)"

lemma server_new_config: "server_new S cfg storage m c = Done srv \<Longrightarrow> srv_config srv = cfg"
  by (auto simp: server_new_def split: outcome.splits)

lemma run_server_bound:
  "(\<exists>e. run_server S (bt_parse_addr B) (bt_bind_error B) evs srv = Inl e) \<longleftrightarrow>
     \<not> (\<exists>addr. bt_parse_addr B (sc_listen_addr (srv_config srv)) = Inr addr \<and> bt_bind_error B addr = None)"
  by (auto simp: run_server_def split: sum.splits option.splits)

lemma async_main_story:
  assumes "async_main B cfg = Done (status, acts)"
    and "storage_open (bt_create_parent B) (bt_io_msg B) (bt_db_open B) (cfg_storage cfg) = Inr storage"
  shows "start_story B cfg status acts"
proof -
  from assms obtain srv where srv: "server_new (bt_semaphore B) (cfg_server cfg) storage metrics_new False = Done srv"
    by (auto simp: async_main_def Let_def split: outcome.splits)
  let ?run = "run_server (bt_semaphore B) (bt_parse_addr B) (bt_bind_error B) (bt_accepts B) srv"
  have "(\<exists>e. ?run = Inl e) \<longleftrightarrow> \<not> bound B cfg"
    unfolding run_server_bound bound_def server_new_config [OF srv] by simp
  with assms srv server_new_config [OF srv] show ?thesis
    by (cases ?run) (auto simp: async_main_def Let_def start_story_def split: outcome.splits)
qed

lemma async_main_stages:
  assumes "async_main B cfg = Done (status, acts)"
  shows "sorted_wrt (<) (map stage acts) \<and> (\<forall>a \<in> set acts. 2 \<le> stage a)"
  using assms by (auto simp: async_main_def Let_def split: sum.splits outcome.splits if_splits prod.splits)

lemma main_process_stages:
  assumes "main_process B args = Done (status, acts)"
  shows "sorted_wrt (<) (map stage acts)"
  using assms
  by (fastforce simp: main_process_def Let_def sorted_wrt_append split: option.splits sum.splits if_splits
      outcome.splits dest!: async_main_stages)

text \<open>What a run of the process does before \<open>async_main\<close>: it fails, or hands it the configuration.\<close>

definition threads_of :: "config \<Rightarrow> 'st startup_action list" where
  "threads_of cfg =
     (if 0 < sc_worker_threads (cfg_server cfg) then [Worker_Threads (sc_worker_threads (cfg_server cfg))] else [])"

lemma main_process_configured:
  assumes "main_process B args = Done (status, acts)"
  shows "(\<nexists>cfg. configured B args cfg) \<and> status \<noteq> Exit_Ok \<and> (\<forall>a \<in> set acts. stage a \<le> 2) \<or>
    (\<exists>cfg load. configured B args cfg \<and> (\<forall>cfg'. configured B args cfg' \<longrightarrow> cfg' = cfg) \<and> stage load = 0 \<and>
       (case bt_runtime_error B of
          Some msg \<Rightarrow> status = Exit_Error msg \<and> acts = load # threads_of cfg
        | None \<Rightarrow> \<exists>rest. async_main B cfg = Done (status, rest) \<and> acts = load # threads_of cfg @ rest))"
proof -
  consider (named) a path r where "args = a # path # r" "slice_get args 1 = Some path"
    | (unnamed) "slice_get args 1 = None" "\<And>cfg. configured B args cfg \<longleftrightarrow> cfg = from_env (bt_env B)"
    by (cases args; cases "tl args") (auto simp: slice_get_def configured_def)
  then show ?thesis
  proof cases
    case named
    then have c: "configured B args cfg \<longleftrightarrow> (\<exists>text. bt_read_file B path = Inr text \<and> bt_toml B text = Inr cfg)" for cfg
      by (simp add: configured_def)
    show ?thesis
    proof (cases "\<exists>cfg. configured B args cfg")
      case True
      then obtain contents cfg where "bt_read_file B path = Inr contents" "bt_toml B contents = Inr cfg" by (auto simp: c)
      with assms named(2) show ?thesis
        by (intro disjI2 exI [of _ cfg] exI [of _ "Load_File path"])
          (auto simp: main_process_def from_file_def threads_of_def c Let_def split: option.splits outcome.splits)
    next
      case False
      with assms named(2) show ?thesis
        by (auto simp: main_process_def from_file_def c Let_def split: sum.splits)
    qed
  next
    case unnamed
    with assms show ?thesis
      by (intro disjI2 exI [of _ "from_env (bt_env B)"] exI [of _ Load_Env])
        (auto simp: main_process_def threads_of_def Let_def split: option.splits outcome.splits)
  qed
qed

lemma async_main_failed:
  "async_main B cfg = Done (status, acts) \<Longrightarrow>
     storage_open (bt_create_parent B) (bt_io_msg B) (bt_db_open B) (cfg_storage cfg) = Inl e \<Longrightarrow>
     status \<noteq> Exit_Ok \<and> acts = [Open_Storage]"
  by (auto simp: async_main_def)

lemma main_process_story:
  assumes "main_process B args = Done (status, acts)"
  shows "(\<nexists>cfg storage. started B args cfg storage) \<and> status \<noteq> Exit_Ok \<and> (\<forall>a \<in> set acts. stage a \<le> 2) \<or>
    (\<exists>cfg storage. started B args cfg storage \<and> (\<forall>cfg' s'. started B args cfg' s' \<longrightarrow> cfg' = cfg) \<and>
       start_story B cfg status acts)"
  using main_process_configured [OF assms]
proof (elim disjE exE conjE)
  fix cfg :: config and load
  let ?open = "storage_open (bt_create_parent B) (bt_io_msg B) (bt_db_open B) (cfg_storage cfg)"
  assume c: "configured B args cfg" "\<forall>cfg'. configured B args cfg' \<longrightarrow> cfg' = cfg"
    and load: "stage load = 0"
    and run: "case bt_runtime_error B of
      Some msg \<Rightarrow> status = Exit_Error msg \<and> acts = load # threads_of cfg
    | None \<Rightarrow> \<exists>rest. async_main B cfg = Done (status, rest) \<and> acts = load # threads_of cfg @ rest"
  have pre: "\<forall>a \<in> set (load # threads_of cfg). stage a < 2" using load by (simp add: threads_of_def)
  show ?thesis
  proof (cases "bt_runtime_error B")
    case None
    with run obtain rest where rest: "async_main B cfg = Done (status, rest)" "acts = (load # threads_of cfg) @ rest" by auto
    show ?thesis
    proof (cases ?open)
      case (Inl e)
      have "\<not> started B args cfg' s'" for cfg' s' using c(2) Inl by (auto simp: started_def)
      moreover have "\<forall>a \<in> set acts. stage a \<le> 2" "status \<noteq> Exit_Ok"
        using async_main_failed [OF rest(1) Inl] rest(2) pre by auto
      ultimately show ?thesis by blast
    next
      case (Inr storage)
      from async_main_story [OF rest(1) Inr] rest(2) pre have "start_story B cfg status acts"
        by (force simp: start_story_def)
      moreover have "started B args cfg storage" using c(1) Inr None by (simp add: started_def)
      ultimately show ?thesis using c(2) by (auto simp: started_def)
    qed
  next
    case (Some msg)
    with run pre have "\<forall>a \<in> set acts. stage a \<le> 2" "status \<noteq> Exit_Ok" by auto
    moreover have "\<not> started B args cfg' s'" for cfg' s' using Some by (simp add: started_def)
    ultimately show ?thesis by blast
  qed
qed (auto simp: started_def)

text \<open>
  C39: However the process starts and whatever fails on the way, it does what it does in one order,
  each step at most once: load the configuration, build the runtime, open the storage, spawn the
  health thread, announce readiness, install the signal handlers, bind the address, serve.  It exits
  with an error exactly if the configuration, the runtime or the storage fails, and is then neither
  announced as ready nor bound.  Otherwise it is announced as ready exactly if metrics are enabled,
  and that before the address is parsed and bound; it serves exactly if the address can be bound, and
  if not it only logs the error and exits with success.
\<close>

theorem startup_order:
  assumes "main_process B args = Done (status, acts)"
  shows "sorted_wrt (<) (map stage acts) \<and>
    (status = Exit_Ok \<longleftrightarrow> (\<exists>cfg storage. started B args cfg storage)) \<and>
    (Mark_Ready \<in> set acts \<longleftrightarrow> (\<exists>cfg storage. started B args cfg storage \<and> mt_enabled (cfg_metrics cfg))) \<and>
    (\<forall>a. Bind_Server a \<in> set acts \<longleftrightarrow>
       (\<exists>cfg storage. started B args cfg storage \<and> a = sc_listen_addr (cfg_server cfg))) \<and>
    ((\<exists>streams. Serve streams \<in> set acts) \<longleftrightarrow> (\<exists>cfg storage. started B args cfg storage \<and> bound B cfg)) \<and>
    (Log_Server_Error \<in> set acts \<longleftrightarrow> (\<exists>cfg storage. started B args cfg storage \<and> \<not> bound B cfg))"
  using main_process_story [OF assms]
proof (elim disjE exE conjE)
  assume "\<nexists>cfg storage. started B args cfg storage" "status \<noteq> Exit_Ok" "\<forall>a \<in> set acts. stage a \<le> 2"
  with main_process_stages [OF assms] show ?thesis by fastforce
next
  fix cfg storage
  assume st: "started B args cfg storage" and uq: "\<forall>cfg' s'. started B args cfg' s' \<longrightarrow> cfg' = cfg"
    and story: "start_story B cfg status acts"
  have "(\<exists>cfg storage. started B args cfg storage \<and> Q cfg) \<longleftrightarrow> Q cfg" for Q using st uq by blast
  with main_process_stages [OF assms] story st show ?thesis
    by (auto simp: start_story_def)
qed

theorem startup_order_witness:
  "\<exists>acts. main_process busy_port [bs ''petracache''] = Done (Exit_Ok, acts) \<and> Mark_Ready \<in> set acts \<and>
     Log_Server_Error \<in> set acts \<and> (\<forall>streams. Serve streams \<notin> set acts)"
proof -
  obtain reg ms where reg: "metrics_create names_registry = Done (reg, ms)" using names.create_succeeds by blast
  obtain acts where acts: "main_process busy_port [bs ''petracache''] = Done (Exit_Ok, acts)"
    by (simp add: run_simps busy_port_def nat_semaphore_def MAX_PERMITS_def reg)
  have "\<exists>s. started busy_port [bs ''petracache''] config_default s"
    by (simp add: started_def configured_def busy_port_def storage_open_def run_simps)
  moreover have "cfg = config_default" if "started busy_port [bs ''petracache''] cfg s" for cfg s
    using that by (simp add: started_def configured_def busy_port_def from_env_def env_var_def)
  moreover have "mt_enabled (cfg_metrics config_default)" by (simp add: run_simps)
  moreover have "\<not> bound busy_port cfg" for cfg by (simp add: bound_def busy_port_def)
  ultimately show ?thesis using acts startup_order [OF acts] by blast
qed

text \<open>
  The storage opens as configured: the database is opened only after its parent directory could
  be created, with the options of the configuration, and every write of the opened storage bypasses
  the write-ahead log.
\<close>

lemma storage_open_exact:
  "storage_open create_parent io_msg db_open cfg = Inr s \<longleftrightarrow>
     (\<nexists>e. create_parent (cf_db_path cfg) = Some (Inl e)) \<and>
     (\<exists>d. db_open (db_options_of cfg) (cf_db_path cfg) = Inr d \<and>
        s = (fresh_storage d)\<lparr>st_ttl_filter := cf_enable_ttl_compaction cfg\<rparr>)"
proof -
  have "do_ttl_filter (db_options_of cfg) = cf_enable_ttl_compaction cfg" by (simp add: db_options_of_def)
  then show ?thesis
    by (auto simp: storage_open_def fresh_storage_def Let_def split: sum.splits option.splits)
qed

end
