(* ===== verification/Streams.thy ===== *)
theory Streams
  imports Connection
begin

text \<open>
  A connection on arbitrary input.  The bytes a client sends fall into frames, commands and lines the
  parser rejects; how they fall is a function of the bytes alone.  The connection task works the
  frames off in their order, whatever pieces the network delivers the bytes in and whichever writes
  fail, and its state between two reads is determined by the frames it has worked off.
\<close>

section \<open>Frames\<close>

datatype frame = Cmd command | Bad protocol_error

fun is_bad :: "frame \<Rightarrow> bool" where
  "is_bad (Cmd cmd) = False"
| "is_bad (Bad e) = True"

fun silent :: "frame \<Rightarrow> bool" where
  "silent (Cmd cmd) = is_noreply cmd"
| "silent (Bad e) = False"

text \<open>The frame at the front of a buffer and its length: a rejected line goes up to its line end.\<close>

definition next_frame :: "memchr \<Rightarrow> bytes \<Rightarrow> (frame \<times> nat) option" where
  "next_frame mc buf =
     (case parse mc buf of
        Done (Complete cmd n) \<Rightarrow> Some (Cmd cmd, unat n)
      | Done (Error e) \<Rightarrow> map_option (\<lambda>i. (Bad e, i + 2)) (find_crlf mc buf)
      | _ \<Rightarrow> None)"

text \<open>
  All frames of a stream, up to the first \<open>quit\<close>.  (A frame is never empty and never longer than the
  buffer, which is the lemma \<open>next_frame_bounds\<close>; the test is there for the termination.)
\<close>

function stream_frames :: "memchr \<Rightarrow> bytes \<Rightarrow> frame list" where
  "stream_frames mc buf =
     (case next_frame mc buf of
        None \<Rightarrow> []
      | Some (f, k) \<Rightarrow>
          if k = 0 \<or> length buf < k then []
          else f # (if f = Cmd Quit then [] else stream_frames mc (drop k buf)))"
  by pat_completeness auto
termination
  by (relation "measure (\<lambda>(mc, buf). length buf)") auto

declare stream_frames.simps [simp del]

text \<open>\<open>takes mc buf fs rest\<close>: the buffer begins with the frames \<open>fs\<close>, and \<open>rest\<close> is what follows them.\<close>

inductive takes :: "memchr \<Rightarrow> bytes \<Rightarrow> frame list \<Rightarrow> bytes \<Rightarrow> bool" for mc where
  takes_Nil: "takes mc buf [] buf"
| takes_Quit: "next_frame mc buf = Some (Cmd Quit, k) \<Longrightarrow> takes mc buf [Cmd Quit] (drop k buf)"
| takes_Cons:
    "next_frame mc buf = Some (f, k) \<Longrightarrow> f \<noteq> Cmd Quit \<Longrightarrow> takes mc (drop k buf) fs rest \<Longrightarrow>
       takes mc buf (f # fs) rest"

lemma takes_trans:
  "takes mc buf fs rest \<Longrightarrow> Cmd Quit \<notin> set fs \<Longrightarrow> takes mc rest fs' rest' \<Longrightarrow> takes mc buf (fs @ fs') rest'"
  by (induction rule: takes.induct) (auto intro: takes_Cons)

lemma takes_one: "next_frame mc buf = Some (f, k) \<Longrightarrow> takes mc buf [f] (drop k buf)"
  by (cases "f = Cmd Quit") (auto intro: takes_Quit takes_Cons takes_Nil)

lemma takes_length: "takes mc buf fs rest \<Longrightarrow> length rest \<le> length buf"
  by (induction rule: takes.induct) auto

context memchr_crate
begin

lemma next_frame_bounds:
  assumes "next_frame mc buf = Some (f, k)" and "length buf \<le> isize_max"
  shows "2 \<le> k \<and> k \<le> length buf"
  using assms parse_complete_bounds find_crlf_bounds
  by (fastforce simp: next_frame_def split: outcome.splits parse_result.splits)

lemma next_frame_append:
  assumes "next_frame mc buf = Some (f, k)" and "length (buf @ ys) \<le> isize_max"
  shows "next_frame mc (buf @ ys) = Some (f, k)"
proof -
  from assms(1) have "parse mc buf \<noteq> Done NeedMoreData" by (auto simp: next_frame_def)
  from parse_append [OF this assms(2)] assms(1) show ?thesis
    by (auto simp: next_frame_def find_crlf_append split: outcome.splits parse_result.splits)
qed

lemma next_frame_None:
  assumes "next_frame mc buf = None"
  shows "parse mc buf = Panic \<or> parse mc buf = Done NeedMoreData"
proof (cases "parse mc buf")
  case (Done r)
  show ?thesis
  proof (cases r)
    case (Error e)
    then have "find_crlf mc buf \<noteq> None"
      using Done by (cases "find_crlf mc buf") (auto simp: parse_def)
    with assms Done Error show ?thesis by (auto simp: next_frame_def)
  qed (use assms Done in \<open>auto simp: next_frame_def\<close>)
qed simp

text \<open>Bytes that arrive later do not change the frames there are.\<close>

lemma takes_append:
  "takes mc buf fs rest \<Longrightarrow> length (buf @ ys) \<le> isize_max \<Longrightarrow> takes mc (buf @ ys) fs (rest @ ys)"
proof (induction rule: takes.induct)
  case (takes_Quit buf k)
  from takes.takes_Quit [OF next_frame_append [OF takes_Quit(1,2)]]
    next_frame_bounds [OF takes_Quit(1)] takes_Quit(2) show ?case by simp
next
  case (takes_Cons buf f k fs rest)
  have k: "k \<le> length buf" using next_frame_bounds [OF takes_Cons(1)] takes_Cons(5) by simp
  have "takes mc (drop k buf @ ys) fs (rest @ ys)" using takes_Cons(4,5) by simp
  with takes.takes_Cons [OF next_frame_append [OF takes_Cons(1,5)] takes_Cons(2)] k show ?case by simp
qed (rule takes_Nil)

lemma stream_frames_takes:
  "takes mc buf fs rest \<Longrightarrow> length buf \<le> isize_max \<Longrightarrow>
     stream_frames mc buf = fs @ (if Cmd Quit \<in> set fs then [] else stream_frames mc rest)"
proof (induction rule: takes.induct)
  case (takes_Quit buf k)
  with next_frame_bounds [OF takes_Quit(1)] show ?case by (subst stream_frames.simps) auto
next
  case (takes_Cons buf f k fs rest)
  with next_frame_bounds [OF takes_Cons(1)] show ?case by (subst stream_frames.simps) auto
qed simp

lemma stream_frames_need_more: "parse mc buf = Done NeedMoreData \<Longrightarrow> stream_frames mc buf = []"
  by (subst stream_frames.simps) (simp add: next_frame_def)

end

section \<open>Working frames off\<close>

text \<open>
  Each frame as a step of the abstract cache with its reply: a rejected line is answered with its
  error and changes nothing.
\<close>

inductive stream_trace ::
    "clock \<Rightarrow> nat \<Rightarrow> frame list \<Rightarrow> cache \<Rightarrow> bytes list \<Rightarrow> cache \<Rightarrow> nat \<Rightarrow> bool" for clk where
  stream_Nil: "stream_trace clk i [] c [] c i"
| stream_Cmd:
    "i \<le> h \<Longrightarrow> cache_step (times_read clk i h) cmd c r c1 \<Longrightarrow> stream_trace clk h fs c1 rs c' i' \<Longrightarrow>
       stream_trace clk i (Cmd cmd # fs) c (r # rs) c' i'"
| stream_Bad:
    "stream_trace clk i fs c rs c' i' \<Longrightarrow>
       stream_trace clk i (Bad e # fs) c (client_error_line e # rs) c' i'"

inductive_cases stream_CmdE: "stream_trace clk i (Cmd cmd # fs) c rs c' i'"
inductive_cases stream_NilE: "stream_trace clk i [] c rs c' i'"

lemma stream_trace_append:
  "stream_trace clk i xs c rs c1 h \<Longrightarrow> stream_trace clk h ys c1 rs' c2 i' \<Longrightarrow>
     stream_trace clk i (xs @ ys) c (rs @ rs') c2 i'"
  by (induction rule: stream_trace.induct) (auto intro: stream_Cmd stream_Bad)

lemma stream_trace_length: "stream_trace clk i fs c rs c' i' \<Longrightarrow> length rs = length fs"
  by (induction rule: stream_trace.induct) auto

text \<open>What the peer receives: every reply but those of silent frames; or a part of the last.\<close>

definition frames_sent :: "frame list \<Rightarrow> bytes list \<Rightarrow> bytes" where
  "frames_sent fs rs = concat (map2 (\<lambda>f r. if silent f then [] else r) fs rs)"

lemma frames_sent_simps [simp]:
  "frames_sent [] rs = []"
  "frames_sent (f # fs) (r # rs) = (if silent f then [] else r) @ frames_sent fs rs"
  by (simp_all add: frames_sent_def)

lemma frames_sent_append:
  "length rs = length xs \<Longrightarrow> frames_sent (xs @ ys) (rs @ rs') = frames_sent xs rs @ frames_sent ys rs'"
  by (simp add: frames_sent_def)

definition delivered :: "frame list \<Rightarrow> bytes list \<Rightarrow> bool \<Rightarrow> bytes \<Rightarrow> bytes \<Rightarrow> bool" where
  "delivered fs rs broken before after \<longleftrightarrow>
     (if broken then
        fs \<noteq> [] \<and> rs \<noteq> [] \<and> \<not> silent (last fs) \<and>
        (\<exists>n. after = before @ frames_sent (butlast fs) (butlast rs) @ take n (last rs))
      else after = before @ frames_sent fs rs)"

lemma delivered_append:
  assumes "delivered fs rs False before mid" and "delivered fs' rs' broken mid after"
    and "length rs = length fs"
  shows "delivered (fs @ fs') (rs @ rs') broken before after"
  using assms by (auto simp: delivered_def butlast_append frames_sent_append)

text \<open>
  What a command answers and leaves behind: \<open>execute\<close> looks at nothing of the server but its storage.
\<close>

definition exec_reply :: "('db, 'e) platform \<Rightarrow> command \<Rightarrow> 'db storage \<Rightarrow> bytes \<times> 'db storage" where
  "exec_reply P cmd s =
     (let srv = \<lparr>srv_config = server_config_default, srv_storage = s, srv_metrics = metrics_new,
            srv_semaphore = (), srv_cancelled = False\<rparr>;
          (srv', resp) = execute P cmd srv \<lparr>rw_buf = []\<rparr>
      in (rw_buf resp, srv_storage srv'))"

fun run_frames :: "('db, 'e) platform \<Rightarrow> frame list \<Rightarrow> 'db storage \<Rightarrow> bytes list \<times> 'db storage" where
  "run_frames P [] s = ([], s)"
| "run_frames P (Cmd cmd # fs) s =
     (let (r, s) = exec_reply P cmd s; (rs, s) = run_frames P fs s in (r # rs, s))"
| "run_frames P (Bad e # fs) s = (let (rs, s) = run_frames P fs s in (client_error_line e # rs, s))"

lemma run_frames_append:
  "run_frames P (xs @ ys) s =
     (let (rs, s1) = run_frames P xs s; (rs', s2) = run_frames P ys s1 in (rs @ rs', s2))"
proof (induction xs arbitrary: s)
  case (Cons x xs)
  then show ?case by (cases x) (simp_all add: Let_def split_def)
qed simp

lemma write_results_writer:
  "snd (write_results it rs (m, resp)) = snd (write_results it rs (m', resp))"
proof (induction rs arbitrary: m m' resp)
  case (Cons x rs)
  obtain k r where "x = (k, r)" by fastforce
  with Cons.IH show ?case by (cases r) simp_all
qed simp

lemma execute_storage_only:
  assumes "srv_storage srv = srv_storage (srv2 :: ('db, 'sem2) server)"
  shows "snd (execute P cmd srv resp) = snd (execute P cmd srv2 resp) \<and>
    srv_storage (fst (execute P cmd srv resp)) = srv_storage (fst (execute P cmd srv2 resp))"
proof (cases cmd)
  case (Get keys)
  with assms show ?thesis
    using write_results_writer [of "pf_itoa P" _ "srv_metrics (upd_metrics inc_cmd_get srv)" resp
        "srv_metrics (upd_metrics inc_cmd_get srv2)"]
    by (auto simp: handle_get_def Let_def split_def split: sum.split option.split)
qed (use assms in \<open>simp_all add: handle_set_def handle_delete_def Let_def split_def split: sum.split\<close>)

lemma exec_reply_execute:
  assumes "execute P cmd srv \<lparr>rw_buf = []\<rparr> = (srv', resp)"
  shows "exec_reply P cmd (srv_storage srv) = (rw_buf resp, srv_storage srv')"
proof -
  let ?srv = "\<lparr>srv_config = server_config_default, srv_storage = srv_storage srv, srv_metrics = metrics_new,
    srv_semaphore = (), srv_cancelled = False\<rparr>"
  have "srv_storage srv = srv_storage ?srv" by simp
  from execute_storage_only [OF this, of P cmd "\<lparr>rw_buf = []\<rparr>"] assms show ?thesis
    by (simp add: exec_reply_def Let_def split_def)
qed

text \<open>A buffer on which the inner loop has nothing to do, or that waits behind a rejected line.\<close>

definition idle :: "memchr \<Rightarrow> frame list \<Rightarrow> bytes \<Rightarrow> bool" where
  "idle mc fs buf \<longleftrightarrow> parse mc buf = Done NeedMoreData \<or> fs \<noteq> [] \<and> is_bad (last fs)"

context petracache_conn
begin

text \<open>
  \<open>progress fs st rs broken st'\<close>: working off \<open>fs\<close> took the task from \<open>st\<close> to \<open>st'\<close>, with the replies
  \<open>rs\<close>.
\<close>

definition progress ::
    "frame list \<Rightarrow> ('db, 'sem, 'st) conn_state \<Rightarrow> bytes list \<Rightarrow> bool \<Rightarrow> ('db, 'sem, 'st) conn_state \<Rightarrow> bool"
  where
  "progress fs st rs broken st' \<longleftrightarrow>
     entries_wf (srv_contents contents (fst st')) \<and> (broken \<longrightarrow> \<not> accepts_writes W) \<and>
     m_protocol_errors (srv_metrics (fst st')) =
       m_protocol_errors (srv_metrics (fst st)) + length (filter is_bad fs) \<and>
     stream_trace (pf_clock P) (srv_clock (fst st)) fs (srv_cache contents (fst st)) rs
       (srv_cache contents (fst st')) (srv_clock (fst st')) \<and>
     run_frames P fs (srv_storage (fst st)) = (rs, srv_storage (fst st')) \<and>
     delivered fs rs broken (sent (cn_stream (snd st))) (sent (cn_stream (snd st')))"

lemma parse_Nil: "parse (pf_memchr P) [] = Done NeedMoreData"
  by (simp add: parse_def find_crlf_def memchr_first)

lemma progress_Nil:
  "entries_wf (srv_contents contents srv) \<Longrightarrow> cn_stream c' = cn_stream c \<Longrightarrow>
     progress [] (srv, c) [] False (srv, c')"
  by (auto simp: progress_def delivered_def intro: stream_Nil)

lemma progress_append:
  "progress fs st rs False st1 \<Longrightarrow> progress fs' st1 rs' broken st' \<Longrightarrow>
     progress (fs @ fs') st (rs @ rs') broken st'"
  unfolding progress_def run_frames_append
  using delivered_append stream_trace_append stream_trace_length by fastforce

text \<open>How the turn for a frame goes on: with a write error, or as the source has it for the frame.\<close>

definition frame_flow :: "frame \<Rightarrow> 's \<Rightarrow> ('s, 'we) flow" where
  "frame_flow fr = (if fr = Cmd Quit then Return else if is_bad fr then Break else Again)"

inductive frame_done ::
    "frame \<Rightarrow> nat \<Rightarrow> ('db, 'sem, 'st) conn_state \<Rightarrow> (('db, 'sem, 'st) conn_state, 'we) flow outcome \<Rightarrow> bool"
  for fr k st where
  done_ok:
    "progress [fr] st [r] False st' \<Longrightarrow> conn_ok (pf_memchr P) (snd st') \<Longrightarrow>
       cn_read_buf (snd st') = drop k (cn_read_buf (snd st)) \<Longrightarrow> frame_done fr k st (Done (frame_flow fr st'))"
| done_failed:
    "progress [fr] st [r] True st' \<Longrightarrow> conn_ok (pf_memchr P) (snd st') \<Longrightarrow>
       cn_read_buf (snd st') = drop k (cn_read_buf (snd st)) \<Longrightarrow> frame_done fr k st (Done (Failed e st'))"

lemma write_fails: "tcp_write_all W s b = (Inl e, s') \<Longrightarrow> \<not> accepts_writes W"
  by (metis accepts_writes_def fst_conv Inl_Inr_False)

lemma command_done:
  assumes ok: "conn_ok (pf_memchr P) c" and n: "unat n \<le> length (cn_read_buf c)"
    and ewf: "entries_wf (srv_contents contents srv)"
  shows "frame_done (Cmd cmd) (unat n) (srv, c) (on_complete P W cmd n (srv, c))"
proof -
  obtain srv1 resp where ex: "execute P cmd srv (cn_response c) = (srv1, resp)" by fastforce
  have step: "cache_step (handler_times (pf_clock P) srv srv1) cmd (srv_cache contents srv) (rw_buf resp)
      (srv_cache contents srv1)"
    using execute_refines [OF ex ewf] ok by (auto simp: conn_ok_def)
  note fr = execute_frame [OF ex] and w1 = execute_wf [OF ex ewf]
  have tr: "stream_trace (pf_clock P) (srv_clock srv) [Cmd cmd] (srv_cache contents srv) [rw_buf resp]
      (srv_cache contents srv1) (srv_clock srv1)"
    using stream_Cmd [OF _ step stream_Nil] fr by blast
  have rf: "run_frames P [Cmd cmd] (srv_storage srv) = ([rw_buf resp], srv_storage srv1)"
    using exec_reply_execute [of P cmd srv srv1 resp] ex ok by (simp add: conn_ok_def)
  obtain res s where w: "tcp_write_all W (cn_stream c) (rw_buf resp) = (res, s)" by fastforce
  let ?c = "c\<lparr>cn_read_buf := drop (unat n) (cn_read_buf c), cn_response := \<lparr>rw_buf = []\<rparr>, cn_pending := None\<rparr>"
  have ok': "conn_ok (pf_memchr P) ?c" by (simp add: conn_ok_def)
  show ?thesis
  proof (cases "is_noreply cmd \<or> rw_buf resp = []")
    case True
    then have "progress [Cmd cmd] (srv, c) [rw_buf resp] False (srv1, ?c)"
      using fr w1 tr rf by (auto simp: progress_def delivered_def)
    with ok' on_complete_silent [OF ex n True] show ?thesis
      using done_ok [of "Cmd cmd" "(srv, c)" "rw_buf resp" "(srv1, ?c)" "unat n"]
      by (auto simp: frame_flow_def)
  next
    case False
    let ?st = "(upd_metrics (inc_bytes_written (length (rw_buf resp))) srv1, ?c\<lparr>cn_stream := s\<rparr>)"
    have ok'': "conn_ok (pf_memchr P) (snd ?st)" by (simp add: conn_ok_def)
    note rp = on_complete_reply [OF ex n _ _ w]
    show ?thesis
    proof (cases res)
      case (Inl e)
      with write_err w obtain k where "sent s = sent (cn_stream c) @ take k (rw_buf resp)" by blast
      with Inl w write_fails False fr w1 tr rf have "progress [Cmd cmd] (srv, c) [rw_buf resp] True ?st"
        by (auto simp: progress_def delivered_def inc_bytes_written_def)
      with ok'' rp Inl False done_failed [of "Cmd cmd" "(srv, c)" "rw_buf resp" ?st "unat n" e]
      show ?thesis by (simp add: Let_def)
    next
      case (Inr u)
      with write_ok w have "sent s = sent (cn_stream c) @ rw_buf resp" by simp
      with False fr w1 tr rf have "progress [Cmd cmd] (srv, c) [rw_buf resp] False ?st"
        by (auto simp: progress_def delivered_def inc_bytes_written_def)
      with ok'' rp Inr False done_ok [of "Cmd cmd" "(srv, c)" "rw_buf resp" ?st "unat n"]
      show ?thesis by (auto simp: frame_flow_def Let_def)
    qed
  qed
qed

lemma error_done:
  assumes ok: "conn_ok (pf_memchr P) c" and i: "find_crlf (pf_memchr P) (cn_read_buf c) = Some i"
    and ewf: "entries_wf (srv_contents contents srv)"
  shows "frame_done (Bad e) (i + 2) (srv, c) (on_error P W e (srv, c))"
proof -
  obtain res s where w: "tcp_write_all W (cn_stream c) (client_error_line e) = (res, s)" by fastforce
  let ?st = "(upd_metrics (inc_bytes_written (length (client_error_line e)))
      (upd_metrics inc_protocol_errors srv),
    c\<lparr>cn_read_buf := drop (i + 2) (cn_read_buf c), cn_response := \<lparr>rw_buf = []\<rparr>,
      cn_pending := None, cn_stream := s\<rparr>)"
  have er: "on_error P W e (srv, c) = Done (case res of Inl err \<Rightarrow> Failed err ?st | Inr u \<Rightarrow> Break ?st)"
    using on_error_eq [OF i _ w, of srv] ok unfolding conn_ok_def Let_def by blast
  have ok': "conn_ok (pf_memchr P) (snd ?st)" by (simp add: conn_ok_def)
  have tr: "stream_trace (pf_clock P) i [Bad e] m [client_error_line e] m i" for i m
    by (intro stream_Bad stream_Nil)
  show ?thesis
  proof (cases res)
    case (Inl err)
    with write_err w obtain k where "sent s = sent (cn_stream c) @ take k (client_error_line e)" by blast
    with Inl w write_fails ewf tr have "progress [Bad e] (srv, c) [client_error_line e] True ?st"
      by (auto simp: progress_def delivered_def inc_bytes_written_def inc_protocol_errors_def)
    with ok' er Inl done_failed [of "Bad e" "(srv, c)" "client_error_line e" ?st "i + 2" err]
    show ?thesis by simp
  next
    case (Inr u)
    with write_ok w have "sent s = sent (cn_stream c) @ client_error_line e" by simp
    with ewf tr have "progress [Bad e] (srv, c) [client_error_line e] False ?st"
      by (auto simp: progress_def delivered_def inc_bytes_written_def inc_protocol_errors_def)
    with ok' er Inr done_ok [of "Bad e" "(srv, c)" "client_error_line e" ?st "i + 2"]
    show ?thesis by (simp add: frame_flow_def)
  qed
qed

text \<open>One turn of the inner loop on a buffer that begins with a frame.\<close>

lemma process_one_frame:
  assumes ok: "conn_ok (pf_memchr P) c" and fr: "next_frame (pf_memchr P) (cn_read_buf c) = Some (fr, k)"
    and len: "length (cn_read_buf c) \<le> isize_max" and ewf: "entries_wf (srv_contents contents srv)"
  shows "frame_done fr k (srv, c) (process_one P W (srv, c))"
proof -
  from fr obtain r where p: "parse (pf_memchr P) (cn_read_buf c) = Done r"
    by (auto simp: next_frame_def split: outcome.splits)
  note one = process_one_parse [OF ok, of srv]
  show ?thesis
  proof (cases r)
    case (Complete cmd n)
    with fr p have "fr = Cmd cmd" "k = unat n" by (auto simp: next_frame_def)
    with command_done [OF ok _ ewf] parse_complete_bounds [OF _ len] one p Complete show ?thesis by simp
  next
    case (Error e)
    with fr p obtain i where "fr = Bad e" "k = i + 2" "find_crlf (pf_memchr P) (cn_read_buf c) = Some i"
      by (auto simp: next_frame_def)
    with error_done [OF ok _ ewf] one p Error show ?thesis by simp
  qed (use fr p in \<open>simp add: next_frame_def\<close>)
qed

text \<open>
  The inner loop works off all frames of the buffer up to a rejected line, a \<open>quit\<close> or a failed write,
  or it panics where the parser does.
\<close>

inductive loop_done ::
    "('db, 'sem, 'st) conn_state \<Rightarrow> (('db, 'sem, 'st) conn_state, 'we) flow outcome \<Rightarrow> bool" for st where
  loop_panic:
    "takes (pf_memchr P) (cn_read_buf (snd st)) fs rest \<Longrightarrow> Cmd Quit \<notin> set fs \<Longrightarrow>
       parse (pf_memchr P) rest = Panic \<Longrightarrow> loop_done st Panic"
| loop_failed:
    "takes (pf_memchr P) (cn_read_buf (snd st)) fs (cn_read_buf (snd st')) \<Longrightarrow>
       progress fs st rs True st' \<Longrightarrow> loop_done st (Done (Failed e st'))"
| loop_quit:
    "takes (pf_memchr P) (cn_read_buf (snd st)) fs (cn_read_buf (snd st')) \<Longrightarrow>
       progress fs st rs False st' \<Longrightarrow> fs \<noteq> [] \<Longrightarrow> last fs = Cmd Quit \<Longrightarrow> loop_done st (Done (Return st'))"
| loop_break:
    "takes (pf_memchr P) (cn_read_buf (snd st)) fs (cn_read_buf (snd st')) \<Longrightarrow>
       progress fs st rs False st' \<Longrightarrow> conn_ok (pf_memchr P) (snd st') \<Longrightarrow> Cmd Quit \<notin> set fs \<Longrightarrow>
       idle (pf_memchr P) fs (cn_read_buf (snd st')) \<Longrightarrow> loop_done st (Done (Break st'))"

lemma loop_done_again:
  assumes "takes (pf_memchr P) (cn_read_buf (snd st)) [fr] (cn_read_buf (snd st1))"
    and "progress [fr] st [r] False st1" and "fr \<noteq> Cmd Quit" and "loop_done st1 out"
  shows "loop_done st out"
  using assms(4)
proof cases
  case (loop_panic fs rest)
  with assms takes_trans [OF assms(1)] loop_done.loop_panic [of st "[fr] @ fs" rest] show ?thesis by simp
next
  case (loop_failed fs st' rs e)
  with assms takes_trans [OF assms(1)] progress_append [OF assms(2)]
    loop_done.loop_failed [of st "[fr] @ fs" st' "[r] @ rs"] show ?thesis by simp
next
  case (loop_quit fs st' rs)
  with assms takes_trans [OF assms(1)] progress_append [OF assms(2)]
    loop_done.loop_quit [of st "[fr] @ fs" st' "[r] @ rs"] show ?thesis by simp
next
  case (loop_break fs st' rs)
  with assms takes_trans [OF assms(1)] progress_append [OF assms(2)]
    loop_done.loop_break [of st "[fr] @ fs" st' "[r] @ rs"] show ?thesis by (auto simp: idle_def)
qed

lemma frame_done_again:
  assumes "frame_done fr k st out" and "out = Done (Again st')"
  shows "\<exists>r. progress [fr] st [r] False st' \<and> fr \<noteq> Cmd Quit \<and> conn_ok (pf_memchr P) (snd st') \<and>
    cn_read_buf (snd st') = drop k (cn_read_buf (snd st))"
  using assms by cases (auto simp: frame_flow_def split: if_splits)

lemma loop_done_stop:
  assumes t: "takes (pf_memchr P) (cn_read_buf (snd st)) [fr] (drop k (cn_read_buf (snd st)))"
    and "frame_done fr k st out" and "\<And>st'. out \<noteq> Done (Again st')"
  shows "loop_done st out"
  using assms(2)
proof cases
  case (done_failed r st' e)
  with t loop_failed [of st "[fr]" st' "[r]" e] show ?thesis by simp
next
  case (done_ok r st')
  consider "fr = Cmd Quit" | "is_bad fr" "fr \<noteq> Cmd Quit"
    using assms(3) [of st'] done_ok(1) by (auto simp: frame_flow_def split: if_splits)
  then show ?thesis
    using done_ok t loop_quit [of st "[fr]" st' "[r]"] loop_break [of st "[fr]" st' "[r]"]
    by cases (simp_all add: frame_flow_def idle_def)
qed

lemma process_loop_frames:
  assumes "conn_ok (pf_memchr P) c" and "length (cn_read_buf c) \<le> isize_max"
    and "entries_wf (srv_contents contents srv)"
  shows "\<exists>out. process_loop P W (srv, c) = Some out \<and> loop_done (srv, c) out"
  using assms
proof (induction "length (cn_read_buf c)" arbitrary: srv c rule: less_induct)
  case less
  show ?case
  proof (cases "next_frame (pf_memchr P) (cn_read_buf c)")
    case None
    from next_frame_None [OF this] show ?thesis
    proof
      assume p: "parse (pf_memchr P) (cn_read_buf c) = Panic"
      with loop_panic [OF takes_Nil, of "(srv, c)"] process_one_parse [OF less.prems(1), of srv] show ?thesis
        by (subst process_loop.simps) simp
    next
      assume p: "parse (pf_memchr P) (cn_read_buf c) = Done NeedMoreData"
      from process_loop_need_more [OF less.prems(1) this, of srv] obtain c' where
        "process_loop P W (srv, c) = Some (Done (Break (srv, c')))" "conn_ok (pf_memchr P) c'"
        "cn_read_buf c' = cn_read_buf c" "cn_stream c' = cn_stream c" by blast
      with p less.prems(3) loop_break [of "(srv, c)" "[]" "(srv, c')" "[]"] show ?thesis
        by (simp add: takes_Nil progress_Nil idle_def)
    qed
  next
    case (Some x)
    then obtain fr k where fr: "next_frame (pf_memchr P) (cn_read_buf c) = Some (fr, k)" by (cases x) auto
    note k = next_frame_bounds [OF fr less.prems(2)] and one = process_one_frame [OF less.prems(1) fr less.prems(2,3)]
    show ?thesis
    proof (cases "\<exists>srv1 c1. process_one P W (srv, c) = Done (Again (srv1, c1))")
      case False
      then have "loop_done (srv, c) (process_one P W (srv, c))"
        using loop_done_stop [of "(srv, c)" fr k] takes_one [OF fr] one by auto
      with False show ?thesis
        by (subst process_loop.simps) (auto split: outcome.splits flow.splits)
    next
      case True
      then obtain srv1 c1 where ag: "process_one P W (srv, c) = Done (Again (srv1, c1))" by blast
      from frame_done_again [OF one ag] obtain r where
        r: "progress [fr] (srv, c) [r] False (srv1, c1)" "fr \<noteq> Cmd Quit" "conn_ok (pf_memchr P) c1"
          "cn_read_buf c1 = drop k (cn_read_buf c)" by auto
      have "length (cn_read_buf c1) < length (cn_read_buf c)" using r(4) k by auto
      moreover have "entries_wf (srv_contents contents srv1)" using r(1) by (simp add: progress_def)
      ultimately obtain out where "process_loop P W (srv1, c1) = Some out" "loop_done (srv1, c1) out"
        using less.hyps [of c1 srv1] less.prems(2) r(3) by auto
      with ag r takes_one [OF fr] loop_done_again [of "(srv, c)" fr "(srv1, c1)" r out] show ?thesis
        by (subst process_loop.simps) simp
    qed
  qed
qed

text \<open>
  The whole task on chunks that make up \<open>input\<close> together with the buffer; \<open>fs0\<close> are the frames worked
  off before.
\<close>

inductive task_done ::
    "('db, 'sem, 'st) conn_state \<Rightarrow> frame list \<Rightarrow> bytes \<Rightarrow>
      ('we conn_status \<times> ('db, 'sem, 'st) conn_state) outcome \<Rightarrow> bool" for st fs0 input where
  task_panic:
    "takes (pf_memchr P) input fs rest \<Longrightarrow> Cmd Quit \<notin> set fs \<Longrightarrow> parse (pf_memchr P) rest = Panic \<Longrightarrow>
       task_done st fs0 input Panic"
| task_failed:
    "takes (pf_memchr P) input fs rest \<Longrightarrow> progress fs st rs True st' \<Longrightarrow>
       task_done st fs0 input (Done (Errored e, st'))"
| task_quit:
    "takes (pf_memchr P) input fs rest \<Longrightarrow> progress fs st rs False st' \<Longrightarrow> fs \<noteq> [] \<Longrightarrow>
       last fs = Cmd Quit \<Longrightarrow> task_done st fs0 input (Done (Quitted, st'))"
| task_waiting:
    "takes (pf_memchr P) input fs (cn_read_buf (snd st')) \<Longrightarrow> progress fs st rs False st' \<Longrightarrow>
       Cmd Quit \<notin> set fs \<Longrightarrow> idle (pf_memchr P) (fs0 @ fs) (cn_read_buf (snd st')) \<Longrightarrow>
       task_done st fs0 input (Done (Waiting, st'))"

lemma task_done_more:
  assumes "takes (pf_memchr P) input fs1 input1" and "progress fs1 st rs1 False st1"
    and "Cmd Quit \<notin> set fs1" and "task_done st1 (fs0 @ fs1) input1 out"
  shows "task_done st fs0 input out"
  using assms(4)
proof cases
  case (task_panic fs rest)
  with takes_trans [OF assms(1,3)] assms(3) task_done.task_panic [of input "fs1 @ fs" rest] show ?thesis by simp
next
  case (task_failed fs rest rs st' e)
  with takes_trans [OF assms(1,3)] progress_append [OF assms(2)]
    task_done.task_failed [of input "fs1 @ fs" rest st "rs1 @ rs" st'] show ?thesis by simp
next
  case (task_quit fs rest rs st')
  with takes_trans [OF assms(1,3)] progress_append [OF assms(2)]
    task_done.task_quit [of input "fs1 @ fs" rest st "rs1 @ rs" st'] show ?thesis by simp
next
  case (task_waiting fs st' rs)
  with takes_trans [OF assms(1,3)] progress_append [OF assms(2)] assms(3)
    task_done.task_waiting [of input "fs1 @ fs" st' st "rs1 @ rs" fs0] show ?thesis by simp
qed

lemma progress_receive:
  "receive b (srv, c) = (srv0, c0) \<Longrightarrow> progress fs (srv0, c0) = progress fs (srv, c)"
  by (auto simp: progress_def fun_eq_iff receive_def inc_bytes_read_def)

lemma handle_read:
  assumes "b \<noteq> []" and "receive b st = st0" and "process_loop P W st0 = Some out"
  shows "handle_events P W (Read (Inr b) # evs) st =
    (case out of
       Panic \<Rightarrow> Some Panic
     | Done (Again st') \<Rightarrow> None
     | Done (Break st') \<Rightarrow> handle_events P W evs st'
     | Done (Return st') \<Rightarrow> Some (Done (Quitted, st'))
     | Done (Failed e st') \<Rightarrow> Some (Done (Errored e, st')))"
  using assms by simp

text \<open>An event at which the task panics: bytes that bring a frame boundary where the parser does.\<close>

lemma event_panics:
  assumes "conn_ok (pf_memchr P) c" and "length (cn_read_buf c) + event_bytes ev \<le> isize_max"
    and "entries_wf (srv_contents contents srv)" and "handle_events P W [ev] (srv, c) = Some Panic"
  shows "\<exists>b fs rest. ev = Read (Inr b) \<and> takes (pf_memchr P) (cn_read_buf c @ b) fs rest \<and>
    Cmd Quit \<notin> set fs \<and> parse (pf_memchr P) rest = Panic \<and> length rest \<le> isize_max"
proof -
  obtain b where b: "ev = Read (Inr b)" "b \<noteq> []"
    using assms(4) by (cases ev rule: event_bytes.cases) (auto split: if_splits)
  obtain srv0 c0 where rc: "receive b (srv, c) = (srv0, c0)" by fastforce
  have c0: "conn_ok (pf_memchr P) c0" "cn_read_buf c0 = cn_read_buf c @ b"
      "entries_wf (srv_contents contents srv0)" "length (cn_read_buf c0) \<le> isize_max"
    using conn_ok_receive [OF assms(1), of b srv] rc assms(2,3) b by (auto simp: receive_def)
  from process_loop_frames [OF c0(1,4,3)] obtain out where
    out: "process_loop P W (srv0, c0) = Some out" "loop_done (srv0, c0) out" by blast
  have "out = Panic"
    using assms(4) b rc out(1) by (auto split: outcome.splits flow.splits)
  with out(2) obtain fs rest where "takes (pf_memchr P) (cn_read_buf c0) fs rest" "Cmd Quit \<notin> set fs"
      "parse (pf_memchr P) rest = Panic" by cases auto
  with takes_length c0(2,4) b(1) show ?thesis by fastforce
qed

text \<open>The task on any chunks.\<close>

lemma handle_frames:
  assumes "conn_ok (pf_memchr P) c" and "length (cn_read_buf c @ concat chunks) \<le> isize_max"
    and "[] \<notin> set chunks" and "entries_wf (srv_contents contents srv)"
    and "idle (pf_memchr P) fs0 (cn_read_buf c)"
  shows "\<exists>out. handle_events P W (map (\<lambda>b. Read (Inr b) :: 're conn_event) chunks) (srv, c) = Some out \<and>
    task_done (srv, c) fs0 (cn_read_buf c @ concat chunks) out"
  using assms
proof (induction chunks arbitrary: srv c fs0)
  case Nil
  with task_waiting [of "cn_read_buf c" "[]" "(srv, c)" "(srv, c)" "[]" fs0] show ?case
    by (simp add: takes_Nil progress_Nil)
next
  case (Cons b chunks)
  obtain srv0 c0 where rc: "receive b (srv, c) = (srv0, c0)" by fastforce
  then have c0: "cn_read_buf c0 = cn_read_buf c @ b" "srv_contents contents srv0 = srv_contents contents srv"
    by (auto simp: receive_def)
  have ok0: "conn_ok (pf_memchr P) c0" using conn_ok_receive [OF Cons.prems(1), of b srv] rc by simp
  have len: "length (cn_read_buf c0 @ concat chunks) \<le> isize_max" using Cons.prems(2) c0 by simp
  have inp: "cn_read_buf c @ concat (b # chunks) = cn_read_buf c0 @ concat chunks" using c0 by simp
  define evs where "evs = map (\<lambda>b. Read (Inr b) :: 're conn_event) chunks"
  from process_loop_frames [OF ok0, of srv0] len Cons.prems(4) c0 obtain out where
    p: "process_loop P W (srv0, c0) = Some out" "loop_done (srv0, c0) out" by auto
  have "b \<noteq> []" using Cons.prems(3) by auto
  note tk = takes_append [OF _ len] and pr = progress_receive [OF rc]
    and run = handle_read [OF this rc p(1), of evs]
  from p(2) have "\<exists>out. handle_events P W (Read (Inr b) # evs) (srv, c) = Some out \<and>
    task_done (srv, c) fs0 (cn_read_buf c0 @ concat chunks) out"
  proof cases
    case (loop_panic fs rest)
    have "parse (pf_memchr P) (rest @ concat chunks) = Panic"
      using parse_append [of rest "concat chunks"] loop_panic takes_length [OF loop_panic(2)] len by simp
    from task_panic [OF tk [OF loop_panic(2) [unfolded snd_conv]] loop_panic(3) this] loop_panic(1) run
    show ?thesis by auto
  next
    case (loop_failed fs st' rs e)
    from task_failed [OF tk [OF loop_failed(2) [unfolded snd_conv]] loop_failed(3) [unfolded pr]]
      loop_failed(1) run show ?thesis by auto
  next
    case (loop_quit fs st' rs)
    from task_quit [OF tk [OF loop_quit(2) [unfolded snd_conv]] loop_quit(3) [unfolded pr] loop_quit(4,5)]
      loop_quit(1) run show ?thesis by auto
  next
    case (loop_break fs st' rs)
    obtain srv1 c1 where st': "st' = (srv1, c1)" by fastforce
    have t: "takes (pf_memchr P) (cn_read_buf c0 @ concat chunks) fs (cn_read_buf c1 @ concat chunks)"
      using tk [of fs "cn_read_buf c1"] loop_break st' by simp
    have "idle (pf_memchr P) (fs0 @ fs) (cn_read_buf c1)" using loop_break st' by (auto simp: idle_def)
    with Cons.IH [of c1 srv1 "fs0 @ fs"] loop_break st' Cons.prems(3) takes_length [OF t] len
    obtain out' where o: "handle_events P W evs (srv1, c1) = Some out'"
      "task_done (srv1, c1) (fs0 @ fs) (cn_read_buf c1 @ concat chunks) out'"
      by (auto simp: progress_def evs_def)
    have "progress fs (srv, c) rs False (srv1, c1)" using loop_break(3) st' pr by simp
    from task_done_more [OF t this loop_break(5) o(2)] st' o(1) loop_break(1) run show ?thesis by simp
  qed
  then show ?case unfolding inp evs_def by (simp del: handle_events.simps)
qed

end

section \<open>What a stream comes to\<close>

lemma takes_suffix: "takes mc buf fs rest \<Longrightarrow> \<exists>k. rest = drop k buf"
  by (induction rule: takes.induct) (auto intro: exI [of _ 0])

text \<open>
  How the frames \<open>fs\<close>, with \<open>rem_fs\<close> left over, show in what the task returns and in what was sent.
\<close>

fun answered ::
    "'we conn_status \<Rightarrow> frame list \<Rightarrow> frame list \<Rightarrow> bytes list \<Rightarrow> bytes \<Rightarrow> bytes \<Rightarrow> bool" where
  "answered Waiting fs rem_fs rs before after \<longleftrightarrow>
     after = before @ frames_sent fs rs \<and> (rem_fs = [] \<or> fs \<noteq> [] \<and> is_bad (last fs))"
| "answered Quitted fs rem_fs rs before after \<longleftrightarrow>
     after = before @ frames_sent fs rs \<and> rem_fs = [] \<and> fs \<noteq> [] \<and> last fs = Cmd Quit"
| "answered (Errored e) fs rem_fs rs before after \<longleftrightarrow>
     fs \<noteq> [] \<and> \<not> silent (last fs) \<and>
     (\<exists>n. after = before @ frames_sent (butlast fs) (butlast rs) @ take n (last rs))"
| "answered Closed fs rem_fs rs before after \<longleftrightarrow> False"

context petracache_conn
begin

lemma task_answered:
  assumes "task_done (srv, c) [] input (Done (status, (srv', c')))" and "length input \<le> isize_max"
  shows "\<exists>fs rem_fs rs broken. stream_frames (pf_memchr P) input = fs @ rem_fs \<and>
    progress fs (srv, c) rs broken (srv', c') \<and> (broken \<longleftrightarrow> (\<exists>e. status = Errored e)) \<and>
    answered status fs rem_fs rs (sent (cn_stream c)) (sent (cn_stream c'))"
  using assms(1)
proof cases
  case (task_failed fs rest rs e)
  with stream_frames_takes [OF task_failed(2) assms(2)] show ?thesis
    by (intro exI [of _ fs] exI exI [of _ rs] exI [of _ True] conjI)
      (auto simp: progress_def delivered_def)
next
  case (task_quit fs rest rs)
  then have "Cmd Quit \<in> set fs" by (metis last_in_set)
  with task_quit stream_frames_takes [OF task_quit(2) assms(2)] show ?thesis
    by (intro exI [of _ fs] exI [of _ "[]"] exI [of _ rs] exI [of _ False])
      (simp add: progress_def delivered_def)
next
  case (task_waiting fs rs)
  with stream_frames_takes [OF task_waiting(2) assms(2)]
    stream_frames_need_more [of "cn_read_buf c'"] show ?thesis
    by (intro exI [of _ fs] exI [of _ "stream_frames (pf_memchr P) (cn_read_buf c')"] exI [of _ rs]
        exI [of _ False]) (auto simp: progress_def delivered_def idle_def)
qed

lemma task_panics:
  assumes "task_done st [] input Panic"
  shows "\<exists>k. parse (pf_memchr P) (drop k input) = Panic"
  using assms takes_suffix by cases metis

lemma stream_handled:
  assumes "[] \<notin> set chunks" and "length (concat chunks) \<le> isize_max"
    and "entries_wf (srv_contents contents srv)"
  shows "\<exists>out. handle P W (map (\<lambda>b. Read (Inr b) :: 're conn_event) chunks) srv stream = Some out \<and>
    task_done (srv, conn_new srv stream) [] (concat chunks) out"
  using handle_frames [OF conn_ok_new, of srv stream chunks srv "[]"] assms
  by (simp add: handle_def conn_new_def idle_def parse_Nil)

end

section \<open>Properties\<close>

text \<open>
  C3: Any bytes a client sends, in any pieces and on a stream that may fail, are treated as one sequence
  of frames that depends on the bytes alone: commands, and lines answered with their error.  Unless
  it panics, which it does only where the parser does, the task returns to its \<open>select!\<close> or ends; it
  has then worked off a first part of the frames, each command exactly once, in order and as a step
  of the abstract cache, and has counted one protocol error per rejected line.  If it waits, every
  reply has been sent, and a frame is left over only right behind a rejected line; \<open>quit\<close> ends it at
  that frame with every reply sent; a write error ends it in the middle of the last reply, and cannot
  happen on a stream that takes every write.
\<close>

theorem any_stream:
  assumes "petracache_conn P contents W sent" and "[] \<notin> set chunks"
    and "length (concat chunks) \<le> isize_max" and "entries_wf (contents (st_db (srv_storage srv)))"
  shows "handle P W (map (\<lambda>b. Read (Inr b) :: 're conn_event) chunks) srv stream = Some Panic \<and>
      (\<exists>k. parse (pf_memchr P) (drop k (concat chunks)) = Panic) \<or>
    (\<exists>status srv' c' fs rem_fs rs.
      handle P W (map (\<lambda>b. Read (Inr b) :: 're conn_event) chunks) srv stream =
        Some (Done (status, (srv', c'))) \<and>
      stream_frames (pf_memchr P) (concat chunks) = fs @ rem_fs \<and>
      stream_trace (pf_clock P) (srv_clock srv) fs (stored_map (contents (st_db (srv_storage srv)))) rs
        (stored_map (contents (st_db (srv_storage srv')))) (srv_clock srv') \<and>
      m_protocol_errors (srv_metrics srv') =
        m_protocol_errors (srv_metrics srv) + length (filter is_bad fs) \<and>
      answered status fs rem_fs rs (sent stream) (sent (cn_stream c')) \<and>
      ((\<exists>e. status = Errored e) \<longrightarrow> \<not> accepts_writes W))"
proof -
  note pr = petracache_conn.progress_def [OF assms(1)]
  from petracache_conn.stream_handled [OF assms, where 're = 're, of stream] obtain out where
    h: "handle P W (map (\<lambda>b. Read (Inr b) :: 're conn_event) chunks) srv stream = Some out"
      "petracache_conn.task_done P contents W sent (srv, conn_new srv stream) [] (concat chunks) out" by blast
  show ?thesis
  proof (cases out)
    case Panic
    with h petracache_conn.task_panics [OF assms(1)] show ?thesis by blast
  next
    case (Done x)
    then obtain status srv' c' where o: "out = Done (status, (srv', c'))" by (metis prod.collapse)
    from petracache_conn.task_answered [OF assms(1) h(2) [unfolded o] assms(3)] h(1) o show ?thesis
      by (auto simp: pr conn_new_def)
  qed
qed

text \<open>A rejected line, a command behind it, and \<open>quit\<close> in the next piece.\<close>

theorem any_stream_witness:
  "\<exists>status srv' c' fs rem_fs rs.
    handle (ref_platform (\<lambda>i. 0)) ok_stream
      [Read (Inr (bs ''bad'' @ crlf @ bs ''version'' @ crlf)), Read (Inr (bs ''quit'' @ crlf)) :: unit conn_event]
      (ref_server mem_empty) [] = Some (Done (status, (srv', c'))) \<and>
    fs @ rem_fs = [Bad (InvalidCommand (bs ''bad'')), Cmd Version, Cmd Quit] \<and>
    m_protocol_errors (srv_metrics srv') = length (filter is_bad fs) \<and>
    answered status fs rem_fs rs [] (cn_stream c')"
proof -
  let ?chunks = "[bs ''bad'' @ crlf @ bs ''version'' @ crlf, bs ''quit'' @ crlf]"
  let ?h = "handle (ref_platform (\<lambda>i. 0)) ok_stream (map (\<lambda>b. Read (Inr b) :: unit conn_event) ?chunks)
    (ref_server mem_empty) []"
  have wf: "entries_wf (fst (st_db (srv_storage (ref_server mem_empty))))"
    by (simp add: ref_server_def fresh_storage_def mem_empty_def entries_wf_def)
  have n: "[] \<notin> set ?chunks" and l: "length (concat ?chunks) \<le> isize_max"
    by (simp_all add: bs_def isize_max_def)
  have p: "?h \<noteq> Some Panic" by (simp add: run_simps)
  have f: "stream_frames (pf_memchr (ref_platform (\<lambda>i. 0))) (concat ?chunks) =
      [Bad (InvalidCommand (bs ''bad'')), Cmd Version, Cmd Quit]"
    by (simp add: stream_frames.simps next_frame_def run_simps)
  have z: "m_protocol_errors (srv_metrics (ref_server mem_empty)) = 0"
    by (simp add: ref_server_def metrics_new_def)
  from any_stream [OF ok_conn.petracache_conn_axioms n l wf, where 're = unit, of "\<lambda>i. 0" "[]"] p
  show ?thesis unfolding f z by (simp only: list.map add_0) metis
qed

end
