(* ===== verification/Process.thy ===== *)
theory Process
  imports Startup Streams
begin

text \<open>
  The running process of \<open>src/main.rs\<close> after \<open>async_main\<close> has set it up: the accept loop and the
  connection tasks (the system of theory \<open>Server\<close>), the signal task, the health thread and the main
  task, which waits for \<open>Server::run\<close>.  They share the cancellation token and the flags of the health
  server.  The model begins where the health thread has been spawned and the server object
  exists; the main task then marks the server ready, and waits for \<open>Server::run\<close>, whose address is taken to be bound (theory \<open>Startup\<close> has
  the failure).  A step is one step of one of the tasks, for the health thread the making of its
  listener or one turn of its loop (theory \<open>Health\<close>), which sees what the others have left; when the
  main task returns, the process is over.  The release profile of \<open>Cargo.toml\<close> makes every panic an
  abort, so a panic of any task ends the process too.
\<close>

section \<open>The tasks\<close>

text \<open>
  The signal task: about to install its handlers, waiting in its \<open>select!\<close>, past it, and after each of
  its two calls.
\<close>

datatype signal_task = Installing | Listening | Signalled | Token_Cancelled | Signal_Done

text \<open>
  Where a panic happened: in the task of the \<open>i\<close>-th connection, on the arrival of these bytes, in the
  health thread, or in the signal task.
\<close>

datatype panic_site = In_Task nat bytes | In_Health | In_Signal

datatype main_task = Starting | Serving | Exited | Aborted panic_site

fun event_data :: "'re conn_event \<Rightarrow> bytes" where
  "event_data (Read (Inr b)) = b"
| "event_data _ = []"

abbreviation running :: "main_task \<Rightarrow> bool" where
  "running m \<equiv> m = Starting \<or> m = Serving"

text \<open>The health thread: none, about to make its listener, ended by an error of that, or in its loop.\<close>

datatype health_thread = Absent | Binding | Bind_Error | Looping health_status

record ('db, 'sem, 'st) process =
  pr_sys :: "('db, 'sem, 'st) system"
  pr_health :: "health_server option"
  pr_thread :: health_thread
  pr_http :: "bytes list"
  pr_signal :: signal_task
  pr_main :: main_task

text \<open>\<open>cancel_for_signal.cancel()\<close>\<close>

definition cancel_token :: "('db, 'sem, 'st) system \<Rightarrow> ('db, 'sem, 'st) system" where
  "cancel_token sy = sy\<lparr>sys_srv := (sys_srv sy)\<lparr>srv_cancelled := True\<rparr>\<rparr>"

text \<open>There is a health server, and a thread for it, only if metrics are enabled.\<close>

definition process_init ::
    "'sem semaphore_crate \<Rightarrow> config \<Rightarrow> 'db storage \<Rightarrow> ('db, 'sem, 'st) process outcome" where
  "process_init S cfg storage =
     (let enabled = mt_enabled (cfg_metrics cfg)
      in (case server_new S (cfg_server cfg) storage metrics_new False of
            Panic \<Rightarrow> Panic
          | Done server \<Rightarrow>
              Done \<lparr>pr_sys = sys_init server,
                pr_health = (if enabled then Some health_new else None),
                pr_thread = (if enabled then Binding else Absent), pr_http = [],
                pr_signal = Installing, pr_main = Starting\<rparr>))"

text \<open>What a turn of the health loop sees of the process, with what \<open>accept\<close> gives it.\<close>

definition turn_of ::
    "('db, 'sem, 'st) process \<Rightarrow> health_server \<Rightarrow> 'i http_accept \<Rightarrow> ('db, 'i) health_turn" where
  "turn_of p h a =
     \<lparr>ht_server = h, ht_metrics = srv_metrics (sys_srv (pr_sys p)),
      ht_storage = srv_storage (sys_srv (pr_sys p)), ht_accept = a\<rparr>"

text \<open>
  The rules: marking the server ready; a step of the server that is not the cancellation; the signal
  task installing its handlers, \<open>ctrl_c()\<close> failing to, which its \<open>select!\<close> takes for a signal, and the
  \<open>expect\<close> on the handler for SIGTERM, which panics; the arrival of SIGINT or SIGTERM; the two calls
  the signal task then makes; the health thread making its
  listener, or failing to, and one turn of its loop, which adds what it wrote; a panic of the health
  thread or of a connection task, which aborts the process; and the return of \<open>Server::run\<close>, after which \<open>main\<close> returns and every remaining task is dropped.
\<close>

inductive process_step ::
    "('db, 'e) platform \<Rightarrow> ('st, 'we) tcp_stream \<Rightarrow> 'sem semaphore_crate \<Rightarrow> (metrics \<Rightarrow> 'x + bytes) \<Rightarrow>
      're itself \<Rightarrow> ('db, 'sem, 'st) process \<Rightarrow> ('db, 'sem, 'st) process \<Rightarrow> bool" for P W S enc TY where
  proc_ready:
    "pr_main p = Starting \<Longrightarrow>
       process_step P W S enc TY p (p\<lparr>pr_main := Serving, pr_health := map_option (set_ready True) (pr_health p)\<rparr>)"
|  proc_serve:
    "pr_main p = Serving \<Longrightarrow> sys_step P W S TY (pr_sys p) sy \<Longrightarrow>
       srv_cancelled (sys_srv sy) = srv_cancelled (sys_srv (pr_sys p)) \<Longrightarrow>
       process_step P W S enc TY p (p\<lparr>pr_sys := sy\<rparr>)"
| proc_install:
    "pr_main p = Serving \<Longrightarrow> pr_signal p = Installing \<Longrightarrow>
       process_step P W S enc TY p (p\<lparr>pr_signal := Listening\<rparr>)"
| proc_install_error:
    "pr_main p = Serving \<Longrightarrow> pr_signal p = Installing \<Longrightarrow>
       process_step P W S enc TY p (p\<lparr>pr_signal := Signalled\<rparr>)"
| proc_install_abort:
    "pr_main p = Serving \<Longrightarrow> pr_signal p = Installing \<Longrightarrow>
       process_step P W S enc TY p (p\<lparr>pr_main := Aborted In_Signal\<rparr>)"
| proc_signal:
    "pr_main p = Serving \<Longrightarrow> pr_signal p = Listening \<Longrightarrow>
       process_step P W S enc TY p (p\<lparr>pr_signal := Signalled\<rparr>)"
| proc_cancel:
    "pr_main p = Serving \<Longrightarrow> pr_signal p = Signalled \<Longrightarrow>
       process_step P W S enc TY p (p\<lparr>pr_signal := Token_Cancelled, pr_sys := cancel_token (pr_sys p)\<rparr>)"
| proc_stop_health:
    "pr_main p = Serving \<Longrightarrow> pr_signal p = Token_Cancelled \<Longrightarrow>
       process_step P W S enc TY p (p\<lparr>pr_signal := Signal_Done, pr_health := map_option health_stop (pr_health p)\<rparr>)"
| proc_health_bind:
    "running (pr_main p) \<Longrightarrow> pr_thread p = Binding \<Longrightarrow>
       process_step P W S enc TY p (p\<lparr>pr_thread := Looping Polling\<rparr>)"
| proc_health_bind_error:
    "running (pr_main p) \<Longrightarrow> pr_thread p = Binding \<Longrightarrow>
       process_step P W S enc TY p (p\<lparr>pr_thread := Bind_Error\<rparr>)"
| proc_health_turn:
    "running (pr_main p) \<Longrightarrow> pr_thread p = Looping Polling \<Longrightarrow> pr_health p = Some h \<Longrightarrow>
       health_loop enc [turn_of p h (a :: 're http_accept)] = (outs, status) \<Longrightarrow> status \<noteq> Died \<Longrightarrow>
       process_step P W S enc TY p (p\<lparr>pr_thread := Looping status, pr_http := pr_http p @ outs\<rparr>)"
| proc_health_abort:
    "running (pr_main p) \<Longrightarrow> pr_thread p = Looping Polling \<Longrightarrow> pr_health p = Some h \<Longrightarrow>
       health_loop enc [turn_of p h (a :: 're http_accept)] = (outs, Died) \<Longrightarrow>
       process_step P W S enc TY p (p\<lparr>pr_main := Aborted In_Health\<rparr>)"
| proc_task_abort:
    "pr_main p = Serving \<Longrightarrow> i < length (sys_conns (pr_sys p)) \<Longrightarrow>
       event_possible (ev :: 're conn_event) (sys_srv (pr_sys p)) (sys_conns (pr_sys p) ! i) \<Longrightarrow>
       handle_events P W [ev] (sys_srv (pr_sys p), sys_conns (pr_sys p) ! i) = Some Panic \<Longrightarrow>
       process_step P W S enc TY p (p\<lparr>pr_main := Aborted (In_Task i (event_data ev))\<rparr>)"
| proc_exit:
    "pr_main p = Serving \<Longrightarrow> \<not> sys_accepting (pr_sys p) \<Longrightarrow>
       process_step P W S enc TY p (p\<lparr>pr_main := Exited\<rparr>)"

inductive_cases process_stepE: "process_step P W S enc TY p p'"

inductive process_reachable ::
    "('db, 'e) platform \<Rightarrow> ('st, 'we) tcp_stream \<Rightarrow> 'sem semaphore_crate \<Rightarrow> (metrics \<Rightarrow> 'x + bytes) \<Rightarrow>
      're itself \<Rightarrow> config \<Rightarrow> 'db storage \<Rightarrow> ('db, 'sem, 'st) process \<Rightarrow> bool"
  for P W S enc TY cfg storage where
  proc_init: "process_init S cfg storage = Done p \<Longrightarrow> process_reachable P W S enc TY cfg storage p"
| proc_step:
    "process_reachable P W S enc TY cfg storage p \<Longrightarrow> process_step P W S enc TY p p' \<Longrightarrow>
       process_reachable P W S enc TY cfg storage p'"

lemmas [run_simps] = cancel_token_def process_init_def turn_of_def

section \<open>Invariants\<close>

lemma process_sys_reachable:
  "process_reachable P W S enc TY cfg storage p \<Longrightarrow>
     sys_reachable P W S TY (cfg_server cfg) storage (pr_sys p)"
proof (induction rule: process_reachable.induct)
  case (proc_init p)
  then show ?case
    by (auto simp: process_init_def Let_def intro: reach_init split: outcome.splits)
next
  case (proc_step p p')
  from proc_step(2) show ?case
  proof cases
    case proc_cancel
    with reach_step [OF proc_step.IH step_cancel] show ?thesis by (simp add: cancel_token_def)
  qed (use proc_step.IH in \<open>auto intro: reach_step\<close>)
qed

definition health_up :: "('db, 'sem, 'st) process \<Rightarrow> bool" where
  "health_up p \<longleftrightarrow> (\<forall>h. pr_health p = Some h \<longrightarrow> hs_running h)"

text \<open>How far the shutdown has come, and what the tasks may have seen of it.\<close>

definition shutdown_inv :: "('db, 'sem, 'st) process \<Rightarrow> bool" where
  "shutdown_inv p \<longleftrightarrow>
     (srv_cancelled (sys_srv (pr_sys p)) \<longleftrightarrow> pr_signal p \<in> {Token_Cancelled, Signal_Done}) \<and>
     (sys_accepting (pr_sys p) \<or> srv_cancelled (sys_srv (pr_sys p))) \<and>
     (pr_main p = Exited \<longrightarrow> \<not> sys_accepting (pr_sys p)) \<and> (pr_main p = Starting \<longrightarrow> pr_signal p = Installing) \<and>
     (health_up p \<or> pr_signal p = Signal_Done) \<and> (pr_thread p = Looping Stopped \<longrightarrow> \<not> health_up p)"

lemma sys_step_accepting:
  "sys_step P W S TY sy sy' \<Longrightarrow> sys_accepting sy \<Longrightarrow> sys_accepting sy' \<or> srv_cancelled (sys_srv sy)"
  by (erule sys_step.cases) (auto simp: finish_task_def)

lemma sys_step_stopped: "sys_step P W S TY sy sy' \<Longrightarrow> \<not> sys_accepting sy \<Longrightarrow> \<not> sys_accepting sy'"
  by (erule sys_step.cases) (auto simp: finish_task_def)

lemma shutdown_inv_init: "process_init S cfg storage = Done p \<Longrightarrow> shutdown_inv p"
  by (auto simp: process_init_def Let_def shutdown_inv_def server_new_def sys_init_def health_up_def
      health_new_def split: outcome.splits if_splits)

lemma health_turn_stops:
  assumes "health_loop enc [t] = (outs, Stopped)"
  shows "\<not> hs_running (ht_server t)"
  using assms by (auto simp: Let_def split: if_splits http_accept.splits option.splits outcome.splits prod.splits)

lemma shutdown_inv_step:
  assumes "process_step P W S enc TY p p'" and inv: "shutdown_inv p"
  shows "shutdown_inv p'"
  using assms(1)
proof cases
  case (proc_serve sy)
  with inv sys_step_accepting [OF proc_serve(3)] show ?thesis
    by (auto simp: shutdown_inv_def health_up_def)
next
  case (proc_health_turn h a outs status)
  with inv health_turn_stops [of enc "turn_of p h a" outs] show ?thesis
    by (auto simp: shutdown_inv_def health_up_def turn_of_def simp del: health_loop.simps)
qed (use inv in \<open>auto simp: shutdown_inv_def health_up_def cancel_token_def health_stop_def set_ready_def\<close>)

lemma process_shutdown_inv: "process_reachable P W S enc TY cfg storage p \<Longrightarrow> shutdown_inv p"
  by (induction rule: process_reachable.induct) (auto intro: shutdown_inv_init shutdown_inv_step)

text \<open>Readiness is announced by the main task before it serves, and nothing takes it back.\<close>

lemma process_ready:
  "process_reachable P W S enc TY cfg storage p \<Longrightarrow> pr_health p = Some h \<Longrightarrow> (\<And>site. pr_main p \<noteq> Aborted site) \<Longrightarrow>
     hs_ready h \<longleftrightarrow> pr_main p \<noteq> Starting"
proof (induction arbitrary: h rule: process_reachable.induct)
  case (proc_init p)
  then show ?case
    by (auto simp: process_init_def Let_def health_new_def split: outcome.splits if_splits)
next
  case (proc_step p p')
  from proc_step(2,4,5) show ?case
    by cases (auto simp: health_stop_def set_ready_def dest: proc_step.IH)
qed

section \<open>Progress of the shutdown\<close>

fun signal_rank :: "signal_task \<Rightarrow> nat" where
  "signal_rank Installing = 4"
| "signal_rank Listening = 3"
| "signal_rank Signalled = 2"
| "signal_rank Token_Cancelled = 1"
| "signal_rank Signal_Done = 0"

definition shutdown_rank :: "('db, 'sem, 'st) process \<Rightarrow> nat" where
  "shutdown_rank p =
     signal_rank (pr_signal p) + (if sys_accepting (pr_sys p) then 1 else 0)
     + (if pr_main p = Serving then 1 else 0)"

lemma shutdown_rank_step:
  "process_step P W S enc TY p p' \<Longrightarrow> pr_main p \<noteq> Starting \<Longrightarrow> shutdown_rank p' \<le> shutdown_rank p"
  by (erule process_step.cases)
    (auto simp: shutdown_rank_def cancel_token_def dest: sys_step_stopped)

lemma shutdown_rank_progress:
  fixes p :: "('db, 'sem, 'st) process" and P :: "('db, 'e) platform" and W :: "('st, 'we) tcp_stream"
  assumes inv: "shutdown_inv p" and sig: "pr_signal p \<notin> {Installing, Listening}" and main: "pr_main p = Serving"
  shows "\<exists>p'. process_step P W S enc TY p p' \<and> shutdown_rank p' < shutdown_rank p"
proof (cases "pr_signal p")
  case Signalled
  have "shutdown_rank (p\<lparr>pr_signal := Token_Cancelled, pr_sys := cancel_token (pr_sys p)\<rparr>) < shutdown_rank p"
    by (simp add: shutdown_rank_def cancel_token_def Signalled)
  with proc_cancel [OF main Signalled] show ?thesis by blast
next
  case Token_Cancelled
  have "shutdown_rank (p\<lparr>pr_signal := Signal_Done, pr_health := map_option health_stop (pr_health p)\<rparr>) <
      shutdown_rank p" by (simp add: shutdown_rank_def Token_Cancelled)
  with proc_stop_health [OF main Token_Cancelled] show ?thesis by blast
next
  case Signal_Done
  then have c: "srv_cancelled (sys_srv (pr_sys p))" using inv by (simp add: shutdown_inv_def)
  show ?thesis
  proof (cases "sys_accepting (pr_sys p)")
    case True
    then have "shutdown_rank (p\<lparr>pr_sys := (pr_sys p)\<lparr>sys_accepting := False\<rparr>\<rparr>) < shutdown_rank p"
      by (simp add: shutdown_rank_def)
    with proc_serve [OF main step_stop [OF c, of P W S TY]] show ?thesis by auto
  next
    case False
    have "shutdown_rank (p\<lparr>pr_main := Exited\<rparr>) < shutdown_rank p" by (simp add: shutdown_rank_def main)
    with proc_exit [OF main False] show ?thesis by blast
  qed
qed (use sig in simp_all)

section \<open>Properties\<close>

text \<open>The reference process when it has been marked ready, its health thread polling.\<close>

definition ref_process :: "(mem_db, nat, bytes) process" where
  "ref_process = \<lparr>pr_sys = sys_init \<lparr>srv_config = server_config_default, srv_storage = fresh_storage mem_empty,
      srv_metrics = metrics_new, srv_semaphore = 10000, srv_cancelled = False\<rparr>,
    pr_health = Some \<lparr>hs_ready = True, hs_running = True\<rparr>, pr_thread = Looping Polling, pr_http = [],
    pr_signal = Listening, pr_main = Serving\<rparr>"

lemma ref_process_reachable:
  "process_reachable (ref_platform clk) ok_stream nat_semaphore enc TYPE(unit) config_default
     (fresh_storage mem_empty) ref_process"
proof -
  let ?p0 = "ref_process\<lparr>pr_health := Some health_new, pr_thread := Binding, pr_main := Starting, pr_signal := Installing\<rparr>"
  let ?reach = "process_reachable (ref_platform clk) ok_stream nat_semaphore enc TYPE(unit) config_default
    (fresh_storage mem_empty)"
  have "process_init nat_semaphore config_default (fresh_storage mem_empty) = Done ?p0"
    by (simp add: process_init_def server_new_def nat_semaphore_def config_default_def
        metrics_config_default_def server_config_default_def MAX_PERMITS_def ref_process_def health_new_def)
  then have "?reach ?p0" by (rule proc_init)
  from proc_step [OF this proc_ready] have
    "?reach (?p0\<lparr>pr_main := Serving, pr_health := map_option (set_ready True) (pr_health ?p0)\<rparr>)" by simp
  from proc_step [OF this proc_install] have
    "?reach (?p0\<lparr>pr_main := Serving, pr_health := map_option (set_ready True) (pr_health ?p0), pr_signal := Listening\<rparr>)"
    by simp
  from proc_step [OF this proc_health_bind] show ?thesis
    by (simp add: ref_process_def set_ready_def health_new_def)
qed

text \<open>The reference process serving one fresh connection.\<close>

definition accepted_one :: "(mem_db, nat, bytes) process \<Rightarrow> bool" where
  "accepted_one p \<longleftrightarrow> pr_main p = Serving \<and> pr_signal p = Listening \<and>
     \<not> srv_cancelled (sys_srv (pr_sys p)) \<and> sys_conns (pr_sys p) = [conn_new (sys_srv (pr_sys p)) []]"

lemma accepted_one_reachable:
  "\<exists>p. process_reachable (ref_platform clk) ok_stream nat_semaphore enc TYPE(unit) config_default
     (fresh_storage mem_empty) p \<and> accepted_one p"
proof -
  let ?P = "ref_platform clk"
  obtain srv ok where h: "handle_new_connection nat_semaphore (sys_srv (pr_sys ref_process)) = (srv, ok)"
    by fastforce
  then have srv: "ok" "\<not> srv_cancelled srv"
    by (auto simp: ref_process_def sys_init_def server_defs nat_semaphore_def upd_metrics_def)
  let ?sy = "(pr_sys ref_process)\<lparr>sys_srv := srv, sys_conns := [conn_new srv []]\<rparr>"
  have "sys_step ?P ok_stream nat_semaphore TYPE(unit) (pr_sys ref_process) ?sy"
    using step_accept [OF _ h, of ?P ok_stream "TYPE(unit)" "[]"] srv
    by (simp add: ref_process_def sys_init_def)
  from proc_serve [OF _ this] srv
  have "process_step ?P ok_stream nat_semaphore enc TYPE(unit) ref_process (ref_process\<lparr>pr_sys := ?sy\<rparr>)"
    by (simp add: ref_process_def sys_init_def)
  from proc_step [OF ref_process_reachable this] srv show ?thesis
    by (fastforce simp: accepted_one_def ref_process_def)
qed

lemma bad_length_aborts:
  assumes "accepted_one p"
  shows "process_step (ref_platform clk) ok_stream nat_semaphore enc TYPE(unit) p
    (p\<lparr>pr_main := Aborted (In_Task 0 (bs ''set a 0 0 18446744073709551614'' @ crlf))\<rparr>)"
proof -
  let ?ev = "Read (Inr (bs ''set a 0 0 18446744073709551614'' @ crlf)) :: unit conn_event"
  have "process_step (ref_platform clk) ok_stream nat_semaphore enc TYPE(unit) p
    (p\<lparr>pr_main := Aborted (In_Task 0 (event_data ?ev))\<rparr>)"
  proof (rule proc_task_abort)
    show "handle_events (ref_platform clk) ok_stream [?ev] (sys_srv (pr_sys p), sys_conns (pr_sys p) ! 0) = Some Panic"
      using assms by (auto simp: accepted_one_def run_simps)
  qed (use assms in \<open>auto simp: accepted_one_def event_possible_def conn_new_def isize_max_def\<close>)
  then show ?thesis by simp
qed



text \<open>
  C32: A signal brings the process down: once it has arrived, and until the main task has returned, some
  task can always take a step that brings the shutdown closer, at most four of them are needed, and
  no step of any task, serving clients included, sets it back.
\<close>

theorem shutdown_progresses:
  assumes "process_reachable P W S enc TY cfg storage p" and "pr_signal p \<notin> {Installing, Listening}"
    and "pr_main p = Serving"
  shows "(\<exists>p'. process_step P W S enc TY p p' \<and> shutdown_rank p' < shutdown_rank p) \<and>
    (\<forall>p'. process_step P W S enc TY p p' \<longrightarrow> shutdown_rank p' \<le> shutdown_rank p) \<and> shutdown_rank p \<le> 4"
proof -
  have "signal_rank (pr_signal p) \<le> 2" using assms(2) by (cases "pr_signal p") auto
  then have "shutdown_rank p \<le> 4" by (simp add: shutdown_rank_def)
  with shutdown_rank_progress [OF process_shutdown_inv [OF assms(1)] assms(2,3)] assms(3)
    shutdown_rank_step [of P W S enc TY p]
  show ?thesis by auto
qed

theorem shutdown_progresses_witness:
  "\<exists>p'. process_step (ref_platform (\<lambda>i. 0)) ok_stream nat_semaphore plain_encoder TYPE(unit)
     (ref_process\<lparr>pr_signal := Signalled\<rparr>) p' \<and>
     shutdown_rank p' < shutdown_rank (ref_process\<lparr>pr_signal := Signalled\<rparr>)"
proof -
  have m: "pr_main ref_process = Serving" "pr_signal ref_process = Listening" by (simp_all add: ref_process_def)
  have "process_reachable (ref_platform (\<lambda>i. 0)) ok_stream nat_semaphore plain_encoder TYPE(unit) config_default
      (fresh_storage mem_empty) (ref_process\<lparr>pr_signal := Signalled\<rparr>)"
    by (rule proc_step [OF ref_process_reachable proc_signal [OF m]])
  from shutdown_progresses [OF this] m show ?thesis by simp
qed

text \<open>
  The shutdown does not wait for clients: the main task can return while connections are live, and
  their tasks are then dropped with whatever they had read.  The process reaches such an end from
  its start by accepting one connection, receiving a signal, and leaving the accept loop.
\<close>

theorem exit_abandons_connections:
  "\<exists>p :: (mem_db, nat, bytes) process.
     process_reachable (ref_platform (\<lambda>i. 0)) ok_stream nat_semaphore plain_encoder TYPE(unit) config_default
       (fresh_storage mem_empty) p \<and>
     pr_main p = Exited \<and> length (sys_conns (pr_sys p)) = 1 \<and>
     (\<forall>p'. \<not> process_step (ref_platform (\<lambda>i. 0)) ok_stream nat_semaphore plain_encoder TYPE(unit) p p')"
proof -
  let ?P = "ref_platform (\<lambda>i. 0)"
  let ?reach = "process_reachable ?P ok_stream nat_semaphore plain_encoder TYPE(unit) config_default (fresh_storage mem_empty)"
  let ?step = "process_step ?P ok_stream nat_semaphore plain_encoder TYPE(unit)"
  obtain p1 where r1: "?reach p1" and p1: "accepted_one p1" using accepted_one_reachable by blast
  let ?p2 = "p1\<lparr>pr_signal := Signalled\<rparr>"
  have "?step p1 ?p2" by (rule proc_signal) (use p1 in \<open>simp_all add: accepted_one_def\<close>)
  note r2 = proc_step [OF r1 this]
  let ?p3 = "?p2\<lparr>pr_signal := Token_Cancelled, pr_sys := cancel_token (pr_sys ?p2)\<rparr>"
  have "?step ?p2 ?p3" by (rule proc_cancel) (use p1 in \<open>simp_all add: accepted_one_def\<close>)
  note r3 = proc_step [OF r2 this]
  let ?p4 = "?p3\<lparr>pr_sys := (pr_sys ?p3)\<lparr>sys_accepting := False\<rparr>\<rparr>"
  have "?step ?p3 ?p4"
    by (rule proc_serve [OF _ step_stop]) (use p1 in \<open>simp_all add: accepted_one_def cancel_token_def\<close>)
  note r4 = proc_step [OF r3 this]
  let ?p5 = "?p4\<lparr>pr_main := Exited\<rparr>"
  have "?step ?p4 ?p5" by (rule proc_exit) (use p1 in \<open>simp_all add: accepted_one_def\<close>)
  note r5 = proc_step [OF r4 this]
  moreover have "\<not> ?step ?p5 p'" for p' by (auto elim: process_step.cases)
  moreover have "length (sys_conns (pr_sys ?p5)) = 1" using p1 by (simp add: accepted_one_def cancel_token_def)
  ultimately show ?thesis by (intro exI [of _ ?p5]) simp
qed

text \<open>
  C30: What can abort the process: a step that ends it by a panic is the signal task failing to install
  its handler for SIGTERM, or the arrival of bytes on a live connection whose buffer, with these bytes
  and after the frames it begins with are worked off, is at a \<open>set\<close> line that declares one of the
  three lengths at which the parser's 64-bit sums wrap around.  No handler, no reply, no turn of the
  health endpoint and no metric can: the text of the metrics is printable because \<open>Metrics::new\<close> has
  registered all its objects.
\<close>

theorem aborts_only_in_parser:
  assumes "petracache_system P contents W sent S permits" and "entries_wf (contents (st_db storage))"
    and "prometheus_text X name_of registered text_of registry objects"
    and "process_reachable P W S (registry_encoder text_of registry objects) TY cfg storage p"
    and "process_step P W S (registry_encoder text_of registry objects) TY p p'" and "pr_main p' = Aborted site"
  shows "site = In_Signal \<and> pr_signal p = Installing \<or>
    (\<exists>i b fs rest line. site = In_Task i b \<and> i < length (sys_conns (pr_sys p)) \<and>
       takes (pf_memchr P) (cn_read_buf (sys_conns (pr_sys p) ! i) @ b) fs rest \<and> Cmd Quit \<notin> set fs \<and>
       parse_storage_command_line (pf_memchr P) rest = Inr (Some line) \<and>
       unat (ps_bytes line) \<in> {2 ^ 64 - 2, 2 ^ 64 - 3 - ps_command_line_end line,
         2 ^ 64 - 4 - ps_command_line_end line})"
  using assms(5)
proof cases
  case (proc_task_abort i ev)
  have conn: "petracache_conn P contents W sent" using assms(1) by (simp add: petracache_system_def)
  then have mc: "memchr_crate (pf_memchr P)"
    by (simp add: petracache_conn_def petracache_platform_def)
  have inv: "conn_ok (pf_memchr P) (sys_conns (pr_sys p) ! i)" "entries_wf (srv_contents contents (sys_srv (pr_sys p)))"
    using petracache_system.sys_reachable_inv [OF assms(1) process_sys_reachable [OF assms(4)] assms(2)]
      proc_task_abort(3) by (simp_all add: sys_inv_def list_all_length)
  have "length (cn_read_buf (sys_conns (pr_sys p) ! i)) + event_bytes ev \<le> isize_max"
    using proc_task_abort(4) by (simp add: event_possible_def)
  from petracache_conn.event_panics [OF conn inv(1) this inv(2) proc_task_abort(5)]
  obtain b fs rest where r: "ev = Read (Inr b)" "Cmd Quit \<notin> set fs"
      "takes (pf_memchr P) (cn_read_buf (sys_conns (pr_sys p) ! i) @ b) fs rest"
      "parse (pf_memchr P) rest = Panic" "length rest \<le> isize_max" by blast
  with memchr_crate.parse_panics [OF mc r(5)] obtain line where
    "parse_storage_command_line (pf_memchr P) rest = Inr (Some line)"
    "unat (ps_bytes line) \<in> panic_lengths (ps_command_line_end line)" by blast
  with r proc_task_abort(1,3) assms(6) show ?thesis
    by (intro disjI2 exI [of _ i] exI [of _ b] exI [of _ fs] exI [of _ rest] exI [of _ line])
      (simp add: panic_lengths_def)
next
  case (proc_health_abort h a outs)
  have "text_encoder (registry_encoder text_of registry objects)"
    by (rule prometheus_text.axioms_text [OF assms(3)])
  with proc_health_abort turn_died [of _ "turn_of p h a" outs]
    text_encoder.gathers [of _ "ht_metrics (turn_of p h a)" "ht_storage (turn_of p h a)"]
  show ?thesis by fastforce
qed (use assms(6) in auto)

theorem aborts_only_in_parser_witness:
  "\<exists>p :: (mem_db, nat, bytes) process. accepted_one p \<and>
     (\<exists>fs rest line. takes memchr_loop
        (cn_read_buf (sys_conns (pr_sys p) ! 0) @ bs ''set a 0 0 18446744073709551614'' @ crlf) fs rest \<and>
        Cmd Quit \<notin> set fs \<and> parse_storage_command_line memchr_loop rest = Inr (Some line))"
proof -
  obtain p where r: "process_reachable (ref_platform (\<lambda>i. 0)) ok_stream nat_semaphore plain_encoder TYPE(unit)
      config_default (fresh_storage mem_empty) p" and p: "accepted_one p"
    using accepted_one_reachable by blast
  from aborts_only_in_parser [OF ok_system.petracache_system_axioms fresh_wf plain.prometheus_text_axioms r
      bad_length_aborts [OF p]] p show ?thesis by (fastforce simp: ref_platform_def accepted_one_def)
qed

text \<open>
  One request aborts the process: from its start the process reaches, by accepting a connection and
  reading one \<open>set\<close> line with a declared length of \<open>2 ^ 64 - 2\<close>, a state from which there is no step.
\<close>

theorem one_request_aborts:
  "\<exists>p :: (mem_db, nat, bytes) process.
     process_reachable (ref_platform (\<lambda>i. 0)) ok_stream nat_semaphore plain_encoder TYPE(unit) config_default
       (fresh_storage mem_empty) p \<and>
     (\<exists>site. pr_main p = Aborted site) \<and> pr_signal p = Listening \<and>
     (\<forall>p'. \<not> process_step (ref_platform (\<lambda>i. 0)) ok_stream nat_semaphore plain_encoder TYPE(unit) p p')"
proof -
  let ?P = "ref_platform (\<lambda>i. 0)"
  let ?step = "process_step ?P ok_stream nat_semaphore plain_encoder TYPE(unit)"
  obtain p1 where r: "process_reachable ?P ok_stream nat_semaphore plain_encoder TYPE(unit) config_default
      (fresh_storage mem_empty) p1" and p1: "accepted_one p1" using accepted_one_reachable by blast
  let ?site = "In_Task 0 (bs ''set a 0 0 18446744073709551614'' @ crlf)"
  from bad_length_aborts [OF p1] have "?step p1 (p1\<lparr>pr_main := Aborted ?site\<rparr>)" .
  moreover have "\<not> ?step (p1\<lparr>pr_main := Aborted ?site\<rparr>) p'" for p' by (auto elim: process_step.cases)
  ultimately show ?thesis using proc_step [OF r] p1 by (fastforce simp: accepted_one_def)
qed

text \<open>
  C31: The health endpoint tells the truth about the process: a client that sends a request line while
  the health thread is polling and the process has not been told to stop is answered, in the next
  turn of the loop, with the status of its route, where ready means that the main task has called
  \<open>set_ready\<close>; and a scrape shows, under the names \<open>Metrics::new\<close> has registered, the counters the
  connections have brought about at that moment, the number of live connections plus those that left
  early as the gauge, and the number of keys removed by expiration.
\<close>

theorem endpoint_reports_process:
  fixes p :: "('db, 'sem, 'st) process" and hc :: "'re http_conn" and TY :: "'re itself"
  assumes "petracache_system P contents W sent S permits" and "entries_wf (contents (st_db storage))"
    and "prometheus_text X name_of registered text_of registry objects"
    and "process_reachable P W S (registry_encoder text_of registry objects) TY cfg storage p"
    and "pr_thread p = Looping Polling" and "pr_health p = Some h" and "pr_signal p \<in> {Installing, Listening}"
    and "\<And>site. pr_main p \<noteq> Aborted site" and "hc_blocking hc = None" and "hc_request hc = Some (Inr line)"
    and "\<And>txt. gather (registry_encoder text_of registry objects) (srv_metrics (sys_srv (pr_sys p))) (srv_storage (sys_srv (pr_sys p))) = Done txt \<Longrightarrow>
      length txt < 2 ^ 64"
    and "list_all (\<lambda>(n, v). v \<le> 2 ^ 53) (exported_counters (srv_metrics (sys_srv (pr_sys p))))"
    and "length (sys_conns (pr_sys p)) + sys_early (pr_sys p) \<le> 2 ^ 53"
  shows "\<exists>out ct body.
    process_step P W S (registry_encoder text_of registry objects) TY p (p\<lparr>pr_http := pr_http p @ [out]\<rparr>) \<and>
    read_http out = Some (route_status (pr_main p \<noteq> Starting) (split_whitespace line), ct, body) \<and>
    (is_scrape (split_whitespace line) \<longrightarrow>
       list_all (\<lambda>(n, v). metric_sample n body = Some (of_nat v))
         (exported_counters (srv_metrics (sys_srv (pr_sys p)))) \<and>
       metric_sample (bs ''petracache_active_connections'') body =
         Some (of_nat (length (sys_conns (pr_sys p)) + sys_early (pr_sys p))) \<and>
       metric_sample (bs ''petracache_expired_keys_removed_total'') body =
         Some (st_expired_keys_removed (srv_storage (sys_srv (pr_sys p)))))"
proof -
  let ?m = "srv_metrics (sys_srv (pr_sys p))" and ?s = "srv_storage (sys_srv (pr_sys p))"
  let ?parts = "split_whitespace line" and ?enc = "registry_encoder text_of registry objects"
  have enc: "text_encoder ?enc" by (rule prometheus_text.axioms_text [OF assms(3)])
  have gauge: "m_active_connections ?m = int (length (sys_conns (pr_sys p)) + sys_early (pr_sys p))"
    using petracache_system.sys_reachable_inv [OF assms(1) process_sys_reachable [OF assms(4)] assms(2)]
    by (simp add: sys_inv_def)
  have run: "hs_running h" "running (pr_main p)"
    using process_shutdown_inv [OF assms(4)] assms(6-8)
    by (cases "pr_main p"; auto simp: shutdown_inv_def health_up_def)+
  have ready: "hs_ready h \<longleftrightarrow> pr_main p \<noteq> Starting" by (rule process_ready [OF assms(4,6,8)])
  have "\<exists>res out ct body. handle_http ?enc ?m ?s h hc = Some (Done (res, out)) \<and>
      read_http out = Some (route_status (hs_ready h) ?parts, ct, body) \<and> (is_scrape ?parts \<longrightarrow> scraped ?m ?s body)"
    by (rule endpoint_answers [OF enc assms(9,10)]) (use assms(11-13) gauge in auto)
  then obtain res out ct body where h: "handle_http ?enc ?m ?s h hc = Some (Done (res, out))"
      and rd: "read_http out = Some (route_status (hs_ready h) ?parts, ct, body)"
      and sc: "is_scrape ?parts \<longrightarrow> scraped ?m ?s body" by blast
  from run h have "health_loop ?enc [turn_of p h (HttpConn hc)] = ([out], Polling)" by (simp add: turn_of_def)
  from proc_health_turn [OF run(2) assms(5,6) this, of P W S TY]
  have "process_step P W S ?enc TY p (p\<lparr>pr_thread := Looping Polling, pr_http := pr_http p @ [out]\<rparr>)" by simp
  moreover have "p\<lparr>pr_thread := Looping Polling, pr_http := os\<rparr> = p\<lparr>pr_http := os\<rparr>" for os
    using assms(5) by (cases p) simp
  ultimately have "process_step P W S ?enc TY p (p\<lparr>pr_http := pr_http p @ [out]\<rparr>)" by simp
  with rd sc ready gauge show ?thesis by (auto simp: scraped_def)
qed

theorem endpoint_reports_process_witness:
  "\<exists>out ct body. process_step (ref_platform (\<lambda>i. 0)) ok_stream nat_semaphore plain_encoder TYPE(unit) ref_process
      (ref_process\<lparr>pr_http := [out]\<rparr>) \<and> read_http out = Some (200, ct, body) \<and>
    metric_sample (bs ''petracache_active_connections'') body = Some 0"
proof -
  let ?m = "srv_metrics (sys_srv (pr_sys ref_process))" and ?s = "srv_storage (sys_srv (pr_sys ref_process))"
  have st: "pr_thread ref_process = Looping Polling" "pr_health ref_process = Some \<lparr>hs_ready = True, hs_running = True\<rparr>"
    "pr_signal ref_process = Listening" "pr_main ref_process = Serving" "pr_http ref_process = []"
    "?m = metrics_new" "?s = fresh_storage mem_empty"
    "length (sys_conns (pr_sys ref_process)) + sys_early (pr_sys ref_process) = 0"
    by (simp_all add: ref_process_def sys_init_def)
  have r: "route_status True (split_whitespace scrape_line) = 200" by (rule route_status_scrape [OF scrape_line_scrapes])
  have c: "hc_blocking (request_conn scrape_line) = None" "hc_request (request_conn scrape_line) = Some (Inr scrape_line)"
    by (simp_all add: request_conn_def)
  from endpoint_reports_process [OF ok_system.petracache_system_axioms fresh_wf plain.prometheus_text_axioms
      ref_process_reachable st(1,2) _ _ c] st r scrape_line_scrapes fresh_text_length fresh_counters
  show ?thesis by fastforce
qed

end
