(* ===== verification/Concurrent.thy ===== *)
theory Concurrent
  imports Cache
begin

text \<open>
  The operations of \<open>src/storage/rocks.rs\<close> when the tasks of several connections run them at the
  same time.  The storage takes no lock: what is atomic is one call of the database, one reading of
  the clock, one update of a counter.  Each operation is therefore a machine that makes one such
  action per step, and a run interleaves the steps of any number of operations, and compactions, in
  any order.  Run alone the machines are the functions of theory \<open>Rocks\<close>.
\<close>

section \<open>The operations step by step\<close>

text \<open>What an operation has answered, with the arguments it was called with.\<close>

datatype 'e reply =
    Got bytes "'e storage_error + stored_value option"
  | Got_Many "bytes list" "'e storage_error + (bytes \<times> stored_value option) list"
  | Was_Set bytes stored_value "'e storage_error + unit"
  | Was_Deleted bytes "'e storage_error + bool"

text \<open>
  The points between two actions.  \<open>Get_Check\<close> holds the bytes read; \<open>Multi_Check\<close> the items of the
  batch not yet looked at, the results and the expired keys so far; \<open>Multi_Delete\<close> the results and
  the expired keys not yet deleted; \<open>Delete_Write\<close> whether the key was found.
\<close>

datatype 'e call =
    Get_Read bytes
  | Get_Check bytes bytes
  | Get_Delete bytes
  | Multi_Read "bytes list"
  | Multi_Check "bytes list" "(bytes \<times> ('e + bytes option)) list"
      "(bytes \<times> stored_value option) list" "bytes list"
  | Multi_Delete "bytes list" "(bytes \<times> stored_value option) list" "bytes list"
  | Set_Put bytes stored_value
  | Delete_Read bytes
  | Delete_Write bytes bool
  | Returned "'e reply"

fun call_step ::
    "('db, 'e) rocksdb_crate \<Rightarrow> clock \<Rightarrow> 'e call \<times> 'db storage \<Rightarrow> 'e call \<times> 'db storage" where
  "call_step R clk (Get_Read key, s) =
     (let (res, d) = db_get R (st_db s) key
      in (case res of
            Inl e \<Rightarrow> Returned (Got key (Inl (RocksDb e)))
          | Inr None \<Rightarrow> Returned (Got key (Inr None))
          | Inr (Some b) \<Rightarrow> Get_Check key b, s\<lparr>st_db := d\<rparr>))"
| "call_step R clk (Get_Check key b, s) =
     (case decode b of
        Inl e \<Rightarrow> (Returned (Got key (Inl e)), s)
      | Inr v \<Rightarrow>
          (let (expired, i) = is_expired clk v (st_clock s); s = s\<lparr>st_clock := i\<rparr>
           in if expired then
                (Get_Delete key, s\<lparr>st_expired_keys_removed := st_expired_keys_removed s + 1\<rparr>)
              else (Returned (Got key (Inr (Some v))), s)))"
| "call_step R clk (Get_Delete key, s) =
     (let (ignored, d) = db_delete_opt R (st_db s) key (st_write_opts s)
      in (Returned (Got key (Inr None)), s\<lparr>st_db := d\<rparr>))"
| "call_step R clk (Multi_Read keys, s) =
     (let (raw_results, d) = db_multi_get R (st_db s) keys
      in (Multi_Check keys (zip keys raw_results) [] [], s\<lparr>st_db := d\<rparr>))"
| "call_step R clk (Multi_Check keys ((key, raw) # rest) results expired_keys, s) =
     (case raw of
        Inr (Some b) \<Rightarrow>
          (case decode b of
             Inl e \<Rightarrow> (Returned (Got_Many keys (Inl e)), s)
           | Inr v \<Rightarrow>
               (let (expired, i) = is_expired clk v (st_clock s); s = s\<lparr>st_clock := i\<rparr>
                in if expired then
                     (Multi_Check keys rest (results @ [(key, None)]) (expired_keys @ [key]), s)
                   else (Multi_Check keys rest (results @ [(key, Some v)]) expired_keys, s)))
      | Inr None \<Rightarrow> (Multi_Check keys rest (results @ [(key, None)]) expired_keys, s)
      | Inl e \<Rightarrow> (Returned (Got_Many keys (Inl (RocksDb e))), s))"
| "call_step R clk (Multi_Check keys [] results expired_keys, s) =
     (if expired_keys \<noteq> [] then
        (Multi_Delete keys results expired_keys,
         s\<lparr>st_expired_keys_removed := st_expired_keys_removed s + of_nat (length expired_keys)\<rparr>)
      else (Returned (Got_Many keys (Inr results)), s))"
| "call_step R clk (Multi_Delete keys results (key # expired_keys), s) =
     (let (ignored, d) = db_delete_opt R (st_db s) key (st_write_opts s)
      in (Multi_Delete keys results expired_keys, s\<lparr>st_db := d\<rparr>))"
| "call_step R clk (Multi_Delete keys results [], s) = (Returned (Got_Many keys (Inr results)), s)"
| "call_step R clk (Set_Put key v, s) =
     (let encoded = encode v;
          (res, d) = db_put_opt R (st_db s) key encoded (st_write_opts s)
      in (Returned (Was_Set key v (case res of Inl e \<Rightarrow> Inl (RocksDb e) | Inr u \<Rightarrow> Inr ())),
          s\<lparr>st_db := d\<rparr>))"
| "call_step R clk (Delete_Read key, s) =
     (let (res, d) = db_get R (st_db s) key
      in (case res of
            Inl e \<Rightarrow> Returned (Was_Deleted key (Inl (RocksDb e)))
          | Inr found \<Rightarrow> Delete_Write key (found \<noteq> None), s\<lparr>st_db := d\<rparr>))"
| "call_step R clk (Delete_Write key existed, s) =
     (let (res, d) = db_delete_opt R (st_db s) key (st_write_opts s)
      in (Returned (Was_Deleted key (case res of Inl e \<Rightarrow> Inl (RocksDb e) | Inr u \<Rightarrow> Inr existed)),
          s\<lparr>st_db := d\<rparr>))"
| "call_step R clk (Returned r, s) = (Returned r, s)"

section \<open>Running alone\<close>

text \<open>The points at which an operation starts.\<close>

fun fresh_call :: "'e call \<Rightarrow> bool" where
  "fresh_call (Get_Read key) = True"
| "fresh_call (Multi_Read keys) = True"
| "fresh_call (Set_Put key v) = True"
| "fresh_call (Delete_Read key) = True"
| "fresh_call c = False"

inductive leads_to ::
    "('db, 'e) rocksdb_crate \<Rightarrow> clock \<Rightarrow> 'e call \<times> 'db storage \<Rightarrow> 'e reply \<times> 'db storage \<Rightarrow> bool"
  for R clk where
  leads_done: "leads_to R clk (Returned r, s) (r, s)"
| leads_step: "leads_to R clk (call_step R clk (c, s)) out \<Longrightarrow> leads_to R clk (c, s) out"

lemma leads_delete_all:
  "leads_to R clk (Multi_Delete keys results ks, s)
     (Got_Many keys (Inr results), s\<lparr>st_db := delete_all R (st_write_opts s) ks (st_db s)\<rparr>)"
proof (induction ks arbitrary: s)
  case Nil
  show ?case by (rule leads_step) (simp add: leads_done)
next
  case (Cons k ks)
  obtain r d where d: "db_delete_opt R (st_db s) k (st_write_opts s) = (r, d)" by fastforce
  from Cons.IH [of "s\<lparr>st_db := d\<rparr>"] d show ?case by (intro leads_step) simp
qed

lemma leads_multi_check:
  "leads_to R clk (Multi_Check keys xs results es, s)
     (let (res, i) = multi_loop clk xs results es (st_clock s); s = s\<lparr>st_clock := i\<rparr>
      in (case res of
            Inl e \<Rightarrow> (Got_Many keys (Inl e), s)
          | Inr (rs, es) \<Rightarrow>
              (Got_Many keys (Inr rs),
               if es \<noteq> [] then
                 s\<lparr>st_expired_keys_removed := st_expired_keys_removed s + of_nat (length es),
                   st_db := delete_all R (st_write_opts s) es (st_db s)\<rparr>
               else s)))"
proof (induction xs arbitrary: results es s)
  case Nil
  then show ?case
    using leads_delete_all [of R clk keys results es
        "s\<lparr>st_expired_keys_removed := st_expired_keys_removed s + of_nat (length es)\<rparr>"]
    by (intro leads_step) (auto intro: leads_done)
next
  case (Cons x xs)
  obtain key raw where x: "x = (key, raw)" by fastforce
  show ?case
  proof (cases raw)
    case (Inl e)
    then show ?thesis by (intro leads_step) (simp add: x leads_done)
  next
    case (Inr found)
    show ?thesis
    proof (cases found)
      case None
      with Inr Cons.IH [of "results @ [(key, None)]" es s] show ?thesis
        by (intro leads_step) (simp add: x)
    next
      case (Some b)
      show ?thesis
      proof (cases "decode b :: 'b storage_error + stored_value")
        case (Inl e)
        with Inr Some show ?thesis by (intro leads_step) (simp add: x leads_done)
      next
        case dec: (Inr v)
        obtain ex i where ex: "is_expired clk v (st_clock s) = (ex, i)" by fastforce
        from Cons.IH [of "results @ [(key, if ex then None else Some v)]"
            "es @ (if ex then [key] else [])" "s\<lparr>st_clock := i\<rparr>"] Inr Some dec ex
        show ?thesis by (intro leads_step) (auto simp: x)
      qed
    qed
  qed
qed

lemma leads_multi:
  "leads_to R clk (Multi_Read keys, s) (map_prod (Got_Many keys) id (rocks_get_multi R clk keys s))"
proof -
  obtain raw d where d: "db_multi_get R (st_db s) keys = (raw, d)" by fastforce
  from leads_multi_check [of R clk keys "zip keys raw" "[]" "[]" "s\<lparr>st_db := d\<rparr>"] d
  show ?thesis
    by (intro leads_step) (auto simp: rocks_get_multi_def Let_def split: prod.splits sum.splits)
qed

lemma leads_get: "leads_to R clk (Get_Read key, s) (map_prod (Got key) id (rocks_get R clk key s))"
  by (intro leads_step)
    (auto simp: rocks_get_def Let_def intro!: leads_done leads_step [of R clk "Get_Check key b" for b]
      leads_step [of R clk "Get_Delete key"] split: prod.splits sum.splits option.splits)

lemma leads_set: "leads_to R clk (Set_Put key v, s) (map_prod (Was_Set key v) id (rocks_set R key v s))"
  by (intro leads_step) (auto simp: rocks_set_def Let_def intro: leads_done split: prod.splits sum.splits)

lemma leads_delete:
  "leads_to R clk (Delete_Read key, s) (map_prod (Was_Deleted key) id (rocks_delete R key s))"
  by (intro leads_step)
    (auto simp: rocks_delete_def Let_def
      intro!: leads_done leads_step [of R clk "Delete_Write key e" for e] split: prod.splits sum.splits)


section \<open>Every operation returns\<close>

text \<open>An upper bound on the number of steps an operation still has to make.\<close>

fun call_rank :: "'e call \<Rightarrow> nat" where
  "call_rank (Get_Read key) = 3"
| "call_rank (Get_Check key b) = 2"
| "call_rank (Get_Delete key) = 1"
| "call_rank (Multi_Read keys) = 2 * length keys + 3"
| "call_rank (Multi_Check keys rest results es) = 2 * length rest + length es + 2"
| "call_rank (Multi_Delete keys results es) = length es + 1"
| "call_rank (Set_Put key v) = 1"
| "call_rank (Delete_Read key) = 2"
| "call_rank (Delete_Write key existed) = 1"
| "call_rank (Returned r) = 0"

lemma call_rank_0: "call_rank c = 0 \<longleftrightarrow> (\<exists>r. c = Returned r)"
  by (cases c) auto

lemma call_step_rank: "call_rank (fst (call_step R clk (c, s))) \<le> call_rank c - 1"
  by (cases "(R, clk, c, s)" rule: call_step.cases)
    (auto simp: Let_def split: prod.splits sum.splits option.splits if_splits)

text \<open>An operation whose steps find the storage in the states the other tasks have left it in.\<close>

fun interfered ::
    "('db, 'e) rocksdb_crate \<Rightarrow> clock \<Rightarrow> 'e call \<Rightarrow> 'db storage list \<Rightarrow> 'e call" where
  "interfered R clk c [] = c"
| "interfered R clk c (s # ss) = interfered R clk (fst (call_step R clk (c, s))) ss"

lemma interfered_rank: "call_rank (interfered R clk c ss) \<le> call_rank c - length ss"
proof (induction ss arbitrary: c)
  case (Cons s ss)
  from Cons.IH [of "fst (call_step R clk (c, s))"] call_step_rank [of R clk c s] show ?case by simp
qed simp

section \<open>Interleaved runs\<close>

text \<open>
  A configuration is the sequence of the storage states so far, the last one being the present, and
  the operations begun so far, each with the position in that sequence at which it began.  The
  sequence is a record of the run that no step looks at, but for its last state.
\<close>

type_synonym ('db, 'e) conc_state = "'db storage list \<times> (nat \<times> 'e call) list"

inductive conc_step ::
    "('db, 'e) rocksdb_crate \<Rightarrow> clock \<Rightarrow> ('db, 'e) conc_state \<Rightarrow> ('db, 'e) conc_state \<Rightarrow> bool" for R clk where
  conc_begin: "fresh_call c \<Longrightarrow> conc_step R clk (h, cs) (h, cs @ [(length h - 1, c)])"
| conc_act:
    "i < length cs \<Longrightarrow> cs ! i = (b, c) \<Longrightarrow> call_step R clk (c, last h) = (c', s) \<Longrightarrow>
       conc_step R clk (h, cs) (h @ [s], cs[i := (b, c')])"
| conc_compact: "conc_step R clk (h, cs) (h @ [rocks_compact R clk (last h)], cs)"

inductive_cases conc_stepE: "conc_step R clk (h, cs) (h', cs')"

abbreviation conc_run ::
    "('db, 'e) rocksdb_crate \<Rightarrow> clock \<Rightarrow> ('db, 'e) conc_state \<Rightarrow> ('db, 'e) conc_state \<Rightarrow> bool" where
  "conc_run R clk \<equiv> (conc_step R clk)\<^sup>*\<^sup>*"

lemmas conc_run_induct = rtranclp_induct [of _ "(h, cs)" "(h', cs')" for h cs h' cs', split_format (complete)]

text \<open>What the database held, and what the clock showed, from a position on.\<close>

definition passed ::
    "('db \<Rightarrow> bytes \<Rightarrow> bytes option) \<Rightarrow> 'db storage list \<Rightarrow> nat \<Rightarrow> (bytes \<Rightarrow> bytes option) set" where
  "passed contents h b = (\<lambda>s. contents (st_db s)) ` set (drop b h)"

definition elapsed :: "clock \<Rightarrow> 'db storage list \<Rightarrow> nat \<Rightarrow> u64 set" where
  "elapsed clk h b = times_read clk (st_clock (h ! b)) (st_clock (last h))"

text \<open>
  An answer is justified by contents \<open>S\<close> and times \<open>T\<close>: a lookup shows what the key showed in one
  of the contents at one of the times, a batch shows all its keys in the same contents, a store and
  a delete took effect, and a delete reports what was there.
\<close>

definition items_seen ::
    "u64 set \<Rightarrow> (bytes \<Rightarrow> bytes option) \<Rightarrow> (bytes \<times> stored_value option) list \<Rightarrow> bool" where
  "items_seen T m rs \<longleftrightarrow> (\<forall>(k, r) \<in> set rs. \<exists>t \<in> T. r = live_view t m k)"

fun reply_seen :: "(bytes \<Rightarrow> bytes option) set \<Rightarrow> u64 set \<Rightarrow> 'e reply \<Rightarrow> bool" where
  "reply_seen S T (Got k (Inr r)) = (\<exists>m \<in> S. \<exists>t \<in> T. r = live_view t m k)"
| "reply_seen S T (Got_Many ks (Inr rs)) = (\<exists>m \<in> S. map fst rs = ks \<and> items_seen T m rs)"
| "reply_seen S T (Was_Set k v (Inr u)) = (\<exists>m \<in> S. m k = Some (encode v))"
| "reply_seen S T (Was_Deleted k (Inr e)) =
     ((\<exists>m \<in> S. e = (m k \<noteq> None)) \<and> (\<exists>m \<in> S. m k = None))"
| "reply_seen S T r = True"

fun call_seen :: "(bytes \<Rightarrow> bytes option) set \<Rightarrow> u64 set \<Rightarrow> 'e call \<Rightarrow> bool" where
  "call_seen S T (Get_Check k b) = (\<exists>m \<in> S. m k = Some b)"
| "call_seen S T (Get_Delete k) = (\<exists>m \<in> S. \<exists>t \<in> T. live_view t m k = None)"
| "call_seen S T (Multi_Check ks rest rs es) =
     (\<exists>m \<in> S. map fst rs @ map fst rest = ks \<and> items_seen T m rs \<and>
       (\<forall>(k, raw) \<in> set rest. \<forall>r. raw = Inr r \<longrightarrow> r = m k))"
| "call_seen S T (Multi_Delete ks rs es) = (\<exists>m \<in> S. map fst rs = ks \<and> items_seen T m rs)"
| "call_seen S T (Delete_Write k e) = (\<exists>m \<in> S. e = (m k \<noteq> None))"
| "call_seen S T (Returned r) = reply_seen S T r"
| "call_seen S T c = True"

lemma items_seen_mono: "items_seen T m rs \<Longrightarrow> T \<subseteq> T' \<Longrightarrow> items_seen T' m rs"
  by (fastforce simp: items_seen_def)

lemma items_seen_snoc [simp]:
  "items_seen T m (rs @ [(k, r)]) \<longleftrightarrow> items_seen T m rs \<and> (\<exists>t \<in> T. r = live_view t m k)"
  by (auto simp: items_seen_def)

lemma items_seen_Nil [simp]: "items_seen T m []"
  by (simp add: items_seen_def)

lemma reply_seen_mono: "reply_seen S T r \<Longrightarrow> S \<subseteq> S' \<Longrightarrow> T \<subseteq> T' \<Longrightarrow> reply_seen S' T' r"
  by (cases "(S, T, r)" rule: reply_seen.cases) (auto intro: items_seen_mono)

lemma call_seen_mono: "call_seen S T c \<Longrightarrow> S \<subseteq> S' \<Longrightarrow> T \<subseteq> T' \<Longrightarrow> call_seen S' T' c"
  by (cases "(S, T, c)" rule: call_seen.cases) (auto intro: items_seen_mono reply_seen_mono)

lemma fresh_call_seen: "fresh_call c \<Longrightarrow> call_seen S T c"
  by (cases c) auto

lemma call_step_clock: "call_step R clk (c, s) = (c', s') \<Longrightarrow> st_clock s \<le> st_clock s'"
  by (cases "(R, clk, c, s)" rule: call_step.cases)
    (auto simp: Let_def dest: is_expired_clock split: prod.splits sum.splits option.splits if_splits)

lemma passed_snoc:
  "b < length h \<Longrightarrow> passed contents (h @ [s]) b = insert (contents (st_db s)) (passed contents h b)"
  by (simp add: passed_def)

lemma passed_last: "b < length h \<Longrightarrow> contents (st_db (last h)) \<in> passed contents h b"
  by (metis (no_types, lifting) drop_eq_Nil image_eqI last_drop last_in_set not_le passed_def)

lemma elapsed_snoc:
  "b < length h \<Longrightarrow> st_clock (last h) \<le> st_clock s \<Longrightarrow> elapsed clk h b \<subseteq> elapsed clk (h @ [s]) b"
  by (auto simp: elapsed_def times_read_def nth_append intro: le_trans)


text \<open>An entry that was read and then compared with the clock.\<close>

lemma checked_item:
  assumes "is_expired clk v i = (ex, i')" and "m k = Some b"
    and "decode b = (Inr v :: 'e storage_error + stored_value)" and "reading clk i \<in> T"
  obtains t where "t \<in> T" and "live_view t m k = (if ex then None else Some v)"
proof
  show "reading clk i \<in> T" by fact
  have "ex = expired_at (reading clk i) v" using is_expired_fst [of clk v i] assms(1) by simp
  with assms decode_Inr_opt [OF assms(3)]
  show "live_view (reading clk i) m k = (if ex then None else Some v)" by (simp add: live_view_def)
qed

lemma absent_item: "m k = None \<Longrightarrow> live_view t m k = None"
  by (simp add: live_view_def)

lemma get_check_seen:
  fixes R :: "('db, 'e) rocksdb_crate"
  assumes "m \<in> S" and "m k = Some b" and "call_step R clk (Get_Check k b, s) = (c', s')"
    and t: "reading clk (st_clock s) \<in> T"
  shows "call_seen S T c'"
proof (cases "decode b :: 'e storage_error + stored_value")
  case (Inr v)
  obtain ex i where ex: "is_expired clk v (st_clock s) = (ex, i)" by fastforce
  obtain u where u: "u \<in> T" "live_view u m k = (if ex then None else Some v)"
    using checked_item [of clk v "st_clock s" ex i m k, OF ex assms(2) Inr t] .
  with Inr ex assms show ?thesis
    by (auto intro!: bexI [of _ m] bexI [of _ u] split: if_splits)
qed (use assms(3) in auto)

lemma multi_check_seen:
  fixes R :: "('db, 'e) rocksdb_crate"
  assumes "call_seen S T (Multi_Check ks ((k, raw) # rest) rs es)"
    and st: "call_step R clk (Multi_Check ks ((k, raw) # rest) rs es, s) = (c', s')"
    and t: "reading clk (st_clock s) \<in> T"
  shows "call_seen S T c'"
proof -
  from assms(1) obtain m where m: "m \<in> S" "map fst rs @ k # map fst rest = ks" "items_seen T m rs"
      "\<forall>(k, raw) \<in> set rest. \<forall>r. raw = Inr r \<longrightarrow> r = m k" "\<forall>r. raw = Inr r \<longrightarrow> r = m k" by auto
  consider (fail) e where "raw = Inl e" | (absent) "raw = Inr None" | (found) b where "raw = Inr (Some b)"
    by (metis not_None_eq sum.exhaust)
  then show ?thesis
  proof cases
    case (found b)
    show ?thesis
    proof (cases "decode b :: 'e storage_error + stored_value")
      case (Inr v)
      obtain ex i where ex: "is_expired clk v (st_clock s) = (ex, i)" by fastforce
      have mk: "m k = Some b" using m(5) found by simp
      obtain u where u: "u \<in> T" "live_view u m k = (if ex then None else Some v)"
        using checked_item [of clk v "st_clock s" ex i m k, OF ex mk Inr t] .
      with Inr found ex st m show ?thesis
        by (auto intro!: bexI [of _ m] bexI [of _ u] split: if_splits)
    qed (use found st in auto)
  next
    case absent
    with st m t absent_item [of m k "reading clk (st_clock s)"] show ?thesis
      by (auto intro!: bexI [of _ m] bexI [of _ "reading clk (st_clock s)"])
  qed (use st in auto)
qed

context rocks_storage
begin

text \<open>A step keeps the operation justified, by what the database held before or holds after it.\<close>

lemma get_read_seen:
  assumes st: "call_step R clk (Get_Read k, s) = (c', s')" and m: "contents (st_db s) \<in> S"
    and t: "reading clk (st_clock s) \<in> T"
  shows "call_seen S T c'"
proof -
  obtain r d where g: "db_get R (st_db s) k = (r, d)" by fastforce
  show ?thesis
  proof (cases r)
    case (Inr found)
    with g get_result have "found = contents (st_db s) k" by simp
    with st g Inr m t absent_item [of "contents (st_db s)" k "reading clk (st_clock s)"]
    show ?thesis
      by (cases found) (auto intro!: bexI [of _ "contents (st_db s)"] bexI [of _ "reading clk (st_clock s)"]
        split: option.splits)
  qed (use st g in auto)
qed

lemma delete_write_seen:
  assumes "call_seen S T (Delete_Write k e :: 'e call)"
    and st: "call_step R clk (Delete_Write k e, s) = (c', s')" and m: "contents (st_db s') \<in> S"
  shows "call_seen S T c'"
proof -
  obtain r d where p: "db_delete_opt R (st_db s) k (st_write_opts s) = (r, d)" by fastforce
  show ?thesis
  proof (cases r)
    case (Inr u)
    have "contents d k = None" using delete_ok p Inr by simp
    moreover have "contents d \<in> S" using m st p by auto
    ultimately have "\<exists>m \<in> S. m k = None" by (rule bexI)
    moreover have "\<exists>m \<in> S. e = (m k \<noteq> None)" using assms(1) unfolding call_seen.simps .
    ultimately have "reply_seen S T (Was_Deleted k (Inr e) :: 'e reply)"
      unfolding reply_seen.simps by (intro conjI)
    moreover have "c' = Returned (Was_Deleted k (Inr e))" using st p Inr by auto
    ultimately show ?thesis by (simp only: call_seen.simps)
  qed (use st p in auto)
qed

lemma call_step_seen:
  assumes "call_seen S T c" and st: "call_step R clk (c, s) = (c', s')"
    and m: "contents (st_db s) \<in> S" "contents (st_db s') \<in> S" and t: "reading clk (st_clock s) \<in> T"
  shows "call_seen S T c'"
proof (cases c)
  case (Get_Read k)
  then show ?thesis using get_read_seen st m(1) t by blast
next
  case (Get_Check k b)
  then show ?thesis using assms(1) st t get_check_seen by fastforce
next
  case (Get_Delete k)
  then obtain m t where "m \<in> S" "t \<in> T" "live_view t m k = None" using assms(1) by auto
  with Get_Delete st show ?thesis
    by (auto intro!: bexI [of _ m] bexI [of _ t] split: prod.splits)
next
  case (Multi_Read ks)
  obtain rs d where g: "db_multi_get R (st_db s) ks = (rs, d)" by fastforce
  have "r = contents (st_db s) k" if "(k, Inr r) \<in> set (zip ks rs)" for k r
    using that multi_get_result [OF g] by (auto simp: in_set_zip)
  with Multi_Read st g m multi_get_length [OF g] show ?thesis
    by (auto intro!: bexI [of _ "contents (st_db s)"])
next
  case (Multi_Check ks rest rs es)
  show ?thesis
  proof (cases rest)
    case (Cons x xs)
    then have c: "c = Multi_Check ks ((fst x, snd x) # xs) rs es" using Multi_Check by simp
    show ?thesis by (rule multi_check_seen [OF assms(1) [unfolded c] st [unfolded c] t])
  qed (use Multi_Check assms(1) st in \<open>auto split: if_splits\<close>)
next
  case (Multi_Delete ks rs es)
  then show ?thesis using assms(1) st by (cases es) (auto split: prod.splits)
next
  case (Set_Put k v)
  obtain r d where p: "db_put_opt R (st_db s) k (encode v) (st_write_opts s) = (r, d)" by fastforce
  with Set_Put st m(2) put_ok [of "st_db s" k "encode v" "st_write_opts s" _ d] show ?thesis
    by (cases r) (auto intro!: bexI [of _ "contents d"])
next
  case (Delete_Read k)
  obtain r d where g: "db_get R (st_db s) k = (r, d)" by fastforce
  with Delete_Read st m get_result [of "st_db s" k _ d] show ?thesis
    by (cases r) (auto intro!: bexI [of _ "contents (st_db s)"])
next
  case (Delete_Write k e)
  then show ?thesis using delete_write_seen assms(1) st m(2) by blast
qed (use assms in \<open>auto split: prod.splits\<close>)

lemma elapsed_now: 
  "b < length h \<Longrightarrow> st_clock (h ! b) \<le> st_clock (last h) \<Longrightarrow> st_clock (last h) \<le> st_clock s \<Longrightarrow>
     reading clk (st_clock (last h)) \<in> elapsed clk (h @ [s]) b"
  by (auto simp: elapsed_def times_read_def nth_append)

text \<open>Every operation of a run is justified by what it has seen since it began.\<close>

definition run_inv :: "('db, 'e) conc_state \<Rightarrow> bool" where
  "run_inv cf \<longleftrightarrow> (case cf of (h, cs) \<Rightarrow> h \<noteq> [] \<and>
     (\<forall>(b, c) \<in> set cs. b < length h \<and> st_clock (h ! b) \<le> st_clock (last h) \<and>
       call_seen (passed contents h b) (elapsed clk h b) c))"

lemma run_inv_begin: "run_inv (h, cs) \<Longrightarrow> fresh_call c \<Longrightarrow> run_inv (h, cs @ [(length h - 1, c)])"
  by (auto simp: run_inv_def last_conv_nth intro: fresh_call_seen)

lemma run_inv_extend:
  assumes "run_inv (h, cs)" and "(b, c) \<in> set cs" and "st_clock (last h) \<le> st_clock s"
  shows "b < length (h @ [s]) \<and> st_clock ((h @ [s]) ! b) \<le> st_clock (last (h @ [s])) \<and>
    call_seen (passed contents (h @ [s]) b) (elapsed clk (h @ [s]) b) c"
proof -
  have b: "b < length h" "st_clock (h ! b) \<le> st_clock (last h)"
      "call_seen (passed contents h b) (elapsed clk h b) c" using assms(1,2) by (auto simp: run_inv_def)
  with assms(3) call_seen_mono [OF b(3) _ elapsed_snoc [OF b(1) assms(3)]] show ?thesis
    by (simp add: nth_append passed_snoc subset_insertI)
qed

lemma run_inv_act:
  assumes inv: "run_inv (h, cs)" and i: "i < length cs" "cs ! i = (b, c)"
    and st: "call_step R clk (c, last h) = (c', s)"
  shows "run_inv (h @ [s], cs[i := (b, c')])"
proof -
  have mem: "(b, c) \<in> set cs" using i nth_mem by metis
  note le = call_step_clock [OF st]
  have b: "b < length h" "st_clock (h ! b) \<le> st_clock (last h)" using inv mem by (auto simp: run_inv_def)
  note e = run_inv_extend [OF inv _ le]
  have "call_seen (passed contents (h @ [s]) b) (elapsed clk (h @ [s]) b) c'"
    using call_step_seen [OF _ st _ _ elapsed_now [OF b le]] e [OF mem] b(1) passed_last [OF b(1)]
    by (simp add: passed_snoc)
  with e mem show ?thesis
    unfolding run_inv_def by (auto dest!: set_update_subset_insert [THEN subsetD])
qed

text \<open>The entries keep their headers, and no operation fails to decode one.\<close>

lemma call_step_wf:
  assumes "call_step R clk (c, s) = (c', s')" and "entries_wf (contents (st_db s))"
  shows "entries_wf (contents (st_db s'))"
  using assms delete_map put_ok put_err get_keeps multi_get_keeps
  by (cases "(R, clk, c, s)" rule: call_step.cases)
    (fastforce simp: Let_def split: prod.splits sum.splits option.splits if_splits)+

lemma run_wf_step:
  assumes "conc_step R clk cf cf'" and "fst cf \<noteq> []"
    and "\<forall>s \<in> set (fst cf). entries_wf (contents (st_db s))"
  shows "fst cf' \<noteq> [] \<and> (\<forall>s \<in> set (fst cf'). entries_wf (contents (st_db s)))"
  using assms(1)
proof cases
  case (conc_act i cs b c h c' s)
  with assms(2,3) call_step_wf [OF conc_act(5)] show ?thesis by simp
next
  case (conc_compact h cs)
  with assms(2,3) compact_wf [of "last h"] show ?thesis by simp
qed (use assms in auto)

lemma run_inv_step:
  assumes "conc_step R clk cf cf'" and "run_inv cf" and "\<forall>s \<in> set (fst cf). entries_wf (contents (st_db s))"
  shows "run_inv cf'"
  using assms(1)
proof cases
  case (conc_compact h cs)
  have "h \<noteq> []" using assms(2) conc_compact by (simp add: run_inv_def)
  then have "st_clock (last h) \<le> st_clock (rocks_compact R clk (last h))"
    using compact_drops [OF refl, of "last h"] assms(3) conc_compact by simp
  with run_inv_extend [of h cs] assms(2) conc_compact show ?thesis
    unfolding run_inv_def by auto
qed (use assms(2) in \<open>auto intro: run_inv_begin [unfolded One_nat_def] run_inv_act\<close>)

lemma run_from_start:
  assumes "conc_run R clk ([s0], []) cf" and "entries_wf (contents (st_db s0))"
  shows "run_inv cf \<and> (\<forall>s \<in> set (fst cf). entries_wf (contents (st_db s)))"
  using assms(1)
proof (induction rule: rtranclp_induct)
  case base
  show ?case using assms(2) by (simp add: run_inv_def)
next
  case (step cf cf')
  then have "fst cf \<noteq> []" by (auto simp: run_inv_def)
  with step run_inv_step run_wf_step show ?case by blast
qed

end

section \<open>Well-typed runs\<close>

text \<open>An error an operation has answered with.\<close>

fun reply_error :: "'e reply \<Rightarrow> 'e storage_error option" where
  "reply_error (Got k (Inl e)) = Some e"
| "reply_error (Got_Many ks (Inl e)) = Some e"
| "reply_error (Was_Set k v (Inl e)) = Some e"
| "reply_error (Was_Deleted k (Inl e)) = Some e"
| "reply_error r = None"

definition typed_call :: "'e call \<Rightarrow> bool" where
  "typed_call c \<longleftrightarrow> (\<forall>r e. c = Returned r \<longrightarrow> reply_error r = Some e \<longrightarrow> (\<exists>x. e = RocksDb x))"

lemma fresh_call_typed: "fresh_call c \<Longrightarrow> typed_call c"
  by (cases c) (auto simp: typed_call_def)

lemma call_step_typed:
  fixes R :: "('db, 'e) rocksdb_crate"
  assumes st: "call_step R clk (c, s) = (c', s')" and "typed_call c" and "call_seen S T c"
    and wf: "\<forall>m \<in> S. entries_wf m"
  shows "typed_call c'"
proof -
  have no: "decode b \<noteq> (Inl e :: 'e storage_error + stored_value)" if "m \<in> S" "m k = Some b" for m k b e
    using entries_wf_decode [of m k b e] wf that by blast
  show ?thesis
  proof (cases "(R, clk, c, s)" rule: call_step.cases)
    case (2 R' clk' k b s0)
    then obtain m where m: "m \<in> S" "m k = Some b" using assms(3) by auto
    from 2 st no [OF m] show ?thesis
      by (auto simp: typed_call_def Let_def split: sum.splits prod.splits if_splits)
  next
    case (5 R' clk' ks k raw rest rs es s0)
    then obtain m where m: "m \<in> S" "\<forall>r. raw = Inr r \<longrightarrow> r = m k" using assms(3) by auto
    from 5 st no [OF m(1), of k] m(2) show ?thesis
      by (auto simp: typed_call_def Let_def split: sum.splits prod.splits if_splits option.splits)
  qed (use st assms(2) in \<open>auto simp: typed_call_def Let_def split: prod.splits sum.splits option.splits if_splits\<close>)
qed

context rocks_storage
begin

lemma run_typed:
  assumes "conc_run R clk ([s0], []) cf" and wf: "entries_wf (contents (st_db s0))"
  shows "\<forall>(b, c) \<in> set (snd cf). typed_call c"
  using assms(1)
proof (induction rule: rtranclp_induct)
  case (step cf cf')
  note inv = run_from_start [OF step(1) wf]
  from step(2) show ?case
  proof cases
    case (conc_act i cs b c h c' s)
    have mem: "(b, c) \<in> set cs" using conc_act(3,4) nth_mem by metis
    have seen: "call_seen (passed contents h b) (elapsed clk h b) c"
      using inv mem conc_act(1) by (auto simp: run_inv_def)
    have "\<forall>m \<in> passed contents h b. entries_wf m"
      using inv conc_act(1) by (auto simp: passed_def dest: in_set_dropD)
    from call_step_typed [OF conc_act(5) _ seen this] step.IH mem conc_act(1,2) show ?thesis
      by (auto dest!: set_update_subset_insert [THEN subsetD])
  qed (use step.IH fresh_call_typed in auto)
qed simp

end

section \<open>Who can take an entry away\<close>

text \<open>
  What an operation in progress can still do to the entry \<open>v\<close> of \<open>k\<close>: it is a store or a delete of
  \<open>k\<close>, it has decided to delete \<open>k\<close> as expired, or it holds other bytes it has read under \<open>k\<close> and may
  yet find them expired.
\<close>

fun threatens :: "bytes \<Rightarrow> stored_value \<Rightarrow> 'e call \<Rightarrow> bool" where
  "threatens k v (Get_Check k' b) \<longleftrightarrow> k' = k \<and> b \<noteq> encode v"
| "threatens k v (Get_Delete k') \<longleftrightarrow> k' = k"
| "threatens k v (Multi_Check ks rest rs es) \<longleftrightarrow>
     k \<in> set es \<or> (\<exists>b. (k, Inr (Some b)) \<in> set rest \<and> b \<noteq> encode v)"
| "threatens k v (Multi_Delete ks rs es) \<longleftrightarrow> k \<in> set es"
| "threatens k v (Set_Put k' v') \<longleftrightarrow> k' = k"
| "threatens k v (Delete_Read k') \<longleftrightarrow> k' = k"
| "threatens k v (Delete_Write k' e) \<longleftrightarrow> k' = k"
| "threatens k v c \<longleftrightarrow> False"

text \<open>The stores and deletes of a key, finished or not.\<close>

fun call_writes :: "bytes \<Rightarrow> 'e call \<Rightarrow> bool" where
  "call_writes k (Set_Put k' v) \<longleftrightarrow> k' = k"
| "call_writes k (Delete_Read k') \<longleftrightarrow> k' = k"
| "call_writes k (Delete_Write k' e) \<longleftrightarrow> k' = k"
| "call_writes k (Returned (Was_Set k' v r)) \<longleftrightarrow> k' = k"
| "call_writes k (Returned (Was_Deleted k' r)) \<longleftrightarrow> k' = k"
| "call_writes k c \<longleftrightarrow> False"

lemma fresh_call_threatens: "fresh_call c \<Longrightarrow> threatens k v c \<longleftrightarrow> call_writes k c"
  by (cases c) auto

lemma call_step_writes: "call_step R clk (c, s) = (c', s') \<Longrightarrow> call_writes k c' \<longleftrightarrow> call_writes k c"
  by (cases "(R, clk, c, s)" rule: call_step.cases)
    (auto simp: Let_def split: prod.splits sum.splits option.splits if_splits)

lemma conc_step_writes:
  assumes "conc_step R clk (h, cs) (h', cs')" and "i < length cs"
  shows "i < length cs' \<and> (call_writes k (snd (cs' ! i)) \<longleftrightarrow> call_writes k (snd (cs ! i)))"
  using assms(1)
proof cases
  case (conc_act j b c c' s)
  with assms(2) call_step_writes [OF conc_act(5), of k] show ?thesis
    by (cases "j = i") (simp_all add: nth_list_update)
qed (use assms(2) in \<open>simp_all add: nth_append\<close>)

lemma multi_check_keeps:
  fixes R :: "('db, 'e) rocksdb_crate"
  assumes th: "\<not> threatens k v (Multi_Check ks ((k', raw) # rest) rs es)"
    and ex: "\<not> fst (is_expired clk v (st_clock s))"
    and st: "call_step R clk (Multi_Check ks ((k', raw) # rest) rs es, s) = (c', s')"
  shows "st_db s' = st_db s \<and> \<not> threatens k v c'"
proof -
  consider (other) "\<nexists>b. raw = Inr (Some b)" | (found) b where "raw = Inr (Some b)" by blast
  then show ?thesis
  proof cases
    case (found b)
    show ?thesis
    proof (cases "decode b :: 'e storage_error + stored_value")
      case (Inr v')
      obtain x i where x: "is_expired clk v' (st_clock s) = (x, i)" by fastforce
      have "\<not> x" if "k' = k"
      proof -
        have "b = encode v" using th found that by auto
        then have "v' = v" using Inr by (simp add: decode_encode)
        with ex x show ?thesis by simp
      qed
      with th st found Inr x show ?thesis by (auto simp: Let_def split: if_splits)
    qed (use st found in auto)
  qed (use th st in \<open>auto split: sum.splits option.splits\<close>)
qed

context rocks_storage
begin

lemma call_step_keeps:
  assumes cur: "contents (st_db s) k = Some (encode v)" and th: "\<not> threatens k v c"
    and live: "\<not> expired_at (reading clk (st_clock s)) v" and st: "call_step R clk (c, s) = (c', s')"
  shows "contents (st_db s') k = Some (encode v) \<and> \<not> threatens k v c'"
proof -
  have del: "contents d' k = Some (encode v)"
    if "db_delete_opt R (st_db s) k' wo = (r, d')" and "k' \<noteq> k" for k' wo r d'
    using delete_map [OF that(1)] cur that(2) by auto
  have ex: "\<not> fst (is_expired clk v (st_clock s))" using live by (simp add: is_expired_fst)
  show ?thesis
  proof (cases c)
    case (Get_Read k')
    obtain r d where g: "db_get R (st_db s) k' = (r, d)" by fastforce
    from get_result [of "st_db s" k' _ d] get_keeps [OF g] g Get_Read st cur show ?thesis
      by (cases r) (auto split: option.splits)
  next
    case (Get_Check k' b)
    with th st cur ex show ?thesis
      by (cases "k' = k") (auto simp: decode_encode Let_def split: sum.splits prod.splits if_splits)
  next
    case (Get_Delete k')
    with th st del show ?thesis by (auto split: prod.splits)
  next
    case (Multi_Read ks)
    obtain rs d where g: "db_multi_get R (st_db s) ks = (rs, d)" by fastforce
    have "r = contents (st_db s) k" if "(k, Inr r) \<in> set (zip ks rs)" for r
      using that multi_get_result [OF g] by (auto simp: in_set_zip)
    with Multi_Read st g cur multi_get_keeps [OF g] show ?thesis by fastforce
  next
    case (Multi_Check ks rest rs es)
    show ?thesis
    proof (cases rest)
      case (Cons x xs)
      then have c: "c = Multi_Check ks ((fst x, snd x) # xs) rs es" using Multi_Check by simp
      from multi_check_keeps [OF th [unfolded c] ex st [unfolded c]] cur show ?thesis by simp
    qed (use Multi_Check th st cur in \<open>auto split: if_splits\<close>)
  next
    case (Multi_Delete ks rs es)
    with th st del cur show ?thesis by (cases es) (auto split: prod.splits)
  next
    case (Set_Put k' v')
    obtain r d where p: "db_put_opt R (st_db s) k' (encode v') (st_write_opts s) = (r, d)" by fastforce
    have "contents d k = Some (encode v)"
      using p put_ok put_err cur th Set_Put by (cases r) fastforce+
    with Set_Put st p show ?thesis by auto
  next
    case (Delete_Read k')
    obtain r d where g: "db_get R (st_db s) k' = (r, d)" by fastforce
    with get_keeps [OF g] Delete_Read st th cur show ?thesis by (auto split: sum.splits)
  next
    case (Delete_Write k' e)
    with th st del show ?thesis by (auto split: prod.splits)
  qed (use st cur in auto)
qed


lemma conc_step_frame:
  assumes "conc_step R clk (h, cs) (h', cs')" and "h \<noteq> []" and "entries_wf (contents (st_db (last h)))"
  shows "h' \<noteq> [] \<and> entries_wf (contents (st_db (last h'))) \<and> st_clock (last h) \<le> st_clock (last h') \<and>
    length cs \<le> length cs'"
  using assms(1)
proof cases
  case (conc_act i b c c' s)
  with assms call_step_wf [OF conc_act(5)] call_step_clock [OF conc_act(5)] show ?thesis by simp
next
  case conc_compact
  with assms compact_drops [OF refl assms(3)] compact_wf [OF assms(3)] show ?thesis by simp
qed (use assms in auto)

text \<open>The present entry of a key is \<open>v\<close>, and no operation in progress threatens it.\<close>

definition entry_safe :: "bytes \<Rightarrow> stored_value \<Rightarrow> ('db, 'e) conc_state \<Rightarrow> bool" where
  "entry_safe k v cf \<longleftrightarrow> (case cf of (h, cs) \<Rightarrow>
     contents (st_db (last h)) k = Some (encode v) \<and> (\<forall>(b, c) \<in> set cs. \<not> threatens k v c))"

lemma entry_safe_step:
  assumes st: "conc_step R clk (h, cs) (h', cs')" and safe: "entry_safe k v (h, cs)"
    and wf: "entries_wf (contents (st_db (last h)))"
    and new: "\<forall>i. length cs \<le> i \<and> i < length cs' \<longrightarrow> \<not> call_writes k (snd (cs' ! i))"
    and live: "\<forall>t \<in> times_read clk (st_clock (last h)) (st_clock (last h')). \<not> expired_at t v"
  shows "entry_safe k v (h', cs')"
  using st
proof cases
  case (conc_begin c)
  with new have "\<not> call_writes k c" by (auto simp: nth_append)
  with conc_begin safe fresh_call_threatens show ?thesis by (auto simp: entry_safe_def)
next
  case (conc_act i b c c' s)
  have le: "st_clock (last h) \<le> st_clock (last h')" using call_step_clock [OF conc_act(5)] conc_act by simp
  have "(b, c) \<in> set cs" using conc_act(3,4) nth_mem by metis
  then have "\<not> threatens k v c" using safe by (auto simp: entry_safe_def)
  from call_step_keeps [OF _ this _ conc_act(5)] safe live times_read_first [OF le]
  have "contents (st_db s) k = Some (encode v) \<and> \<not> threatens k v c'" by (auto simp: entry_safe_def)
  with safe conc_act(1,2) show ?thesis
    unfolding entry_safe_def by (auto dest!: set_update_subset_insert [THEN subsetD])
next
  case conc_compact
  have "\<not> expired_at (reading clk j) v" if "st_clock (last h) \<le> j" "j < st_clock (last h')" for j
    using live that unfolding times_read_def by (blast intro: less_imp_le)
  with compact_drops [OF refl wf] safe conc_compact show ?thesis
    by (auto simp: entry_safe_def) (metis decode_opt_encode option.distinct(1) option.inject)
qed

lemma conc_run_frame:
  assumes "conc_run R clk (h, cs) (h', cs')" and "h \<noteq> []" and "entries_wf (contents (st_db (last h)))"
  shows "h' \<noteq> [] \<and> entries_wf (contents (st_db (last h'))) \<and> st_clock (last h) \<le> st_clock (last h') \<and>
    length cs \<le> length cs'"
  using assms(1)
proof (induction rule: rtranclp_induct2)
  case (step h1 cs1 h2 cs2)
  with conc_step_frame [OF step(2)] show ?case by auto
qed (use assms in simp)

lemma entry_safe_run:
  assumes "conc_run R clk (h, cs) (h', cs')" and "entry_safe k v (h, cs)"
    and h: "h \<noteq> []" "entries_wf (contents (st_db (last h)))"
    and "\<forall>i. length cs \<le> i \<and> i < length cs' \<longrightarrow> \<not> call_writes k (snd (cs' ! i))"
    and "\<forall>t \<in> times_read clk (st_clock (last h)) (st_clock (last h')). \<not> expired_at t v"
  shows "entry_safe k v (h', cs')"
  using assms(1,5,6)
proof (induction rule: rtranclp_induct2)
  case refl
  show ?case by fact
next
  case (step h1 cs1 h2 cs2)
  note f1 = conc_run_frame [OF step(1) h]
  note f2 = conc_step_frame [OF step(2)]
  have new: "\<not> call_writes k (snd (cs1 ! i))" if "length cs \<le> i" "i < length cs1" for i
    using conc_step_writes [OF step(2) that(2), of k] step(4) that(1) by blast
  have sub: "times_read clk (st_clock (last h)) (st_clock (last h1)) \<subseteq>
      times_read clk (st_clock (last h)) (st_clock (last h2))"
    "times_read clk (st_clock (last h1)) (st_clock (last h2)) \<subseteq>
      times_read clk (st_clock (last h)) (st_clock (last h2))"
    using f1 f2 by (auto simp: times_read_def intro: le_trans)
  have "entry_safe k v (h1, cs1)" using step.IH new sub(1) step(5) by blast
  from entry_safe_step [OF step(2) this] f1 step(4,5) sub(2) show ?case by (meson le_trans subsetD)
qed

end


section \<open>Runs that can be evaluated\<close>

datatype 'e move = Begin "'e call" | Act nat | Compact

fun conc_move ::
    "('db, 'e) rocksdb_crate \<Rightarrow> clock \<Rightarrow> 'e move \<Rightarrow> ('db, 'e) conc_state \<Rightarrow> ('db, 'e) conc_state option" where
  "conc_move R clk (Begin c) (h, cs) = (if fresh_call c then Some (h, cs @ [(length h - 1, c)]) else None)"
| "conc_move R clk (Act i) (h, cs) =
     (if i < length cs then
        (let (b, c) = cs ! i; (c', s) = call_step R clk (c, last h) in Some (h @ [s], cs[i := (b, c')]))
      else None)"
| "conc_move R clk Compact (h, cs) = Some (h @ [rocks_compact R clk (last h)], cs)"

fun conc_moves ::
    "('db, 'e) rocksdb_crate \<Rightarrow> clock \<Rightarrow> 'e move list \<Rightarrow> ('db, 'e) conc_state \<Rightarrow> ('db, 'e) conc_state option" where
  "conc_moves R clk [] cf = Some cf"
| "conc_moves R clk (mv # mvs) cf =
     (case conc_move R clk mv cf of None \<Rightarrow> None | Some cf' \<Rightarrow> conc_moves R clk mvs cf')"

lemma conc_move_step: "conc_move R clk mv cf = Some cf' \<Longrightarrow> conc_step R clk cf cf'"
  by (cases "(R, clk, mv, cf)" rule: conc_move.cases)
    (auto simp: Let_def intro: conc_step.intros conc_begin [unfolded One_nat_def]
      split: if_splits prod.splits)

lemma conc_moves_run: "conc_moves R clk mvs cf = Some cf' \<Longrightarrow> conc_run R clk cf cf'"
proof (induction mvs arbitrary: cf)
  case (Cons mv mvs)
  then show ?case
    by (auto dest!: conc_move_step intro: converse_rtranclp_into_rtranclp split: option.splits)
qed simp

section \<open>Properties\<close>

text \<open>
  Run alone, the step machines are the operations: from the start of a lookup, a batched lookup, a
  store or a delete, making its steps one after the other leads to exactly the answer and the
  storage that the function of the source gives.
\<close>

theorem calls_alone_equal_operations:
  "leads_to R clk (Get_Read k, s) (map_prod (Got k) id (rocks_get R clk k s)) \<and>
   leads_to R clk (Multi_Read ks, s) (map_prod (Got_Many ks) id (rocks_get_multi R clk ks s)) \<and>
   leads_to R clk (Set_Put k v, s) (map_prod (Was_Set k v) id (rocks_set R k v s)) \<and>
   leads_to R clk (Delete_Read k, s) (map_prod (Was_Deleted k) id (rocks_delete R k s))"
  by (intro conjI leads_get leads_multi leads_set leads_delete)

text \<open>
  C19: No operation waits for another: whatever the other tasks do to the storage between its steps, an
  operation returns within a number of its own steps that depends only on its arguments, three for a
  lookup, one for a store, two for a delete and \<open>2 n + 3\<close> for a batch of \<open>n\<close> keys.
\<close>

theorem calls_wait_free:
  assumes "call_rank c \<le> length ss"
  shows "\<exists>r. interfered R clk c ss = Returned r"
  using interfered_rank [of R clk c ss] assms call_rank_0 by (metis diff_is_0_eq le_zero_eq)

theorem calls_wait_free_witness:
  "\<exists>r. interfered mem_rocksdb (\<lambda>i. 0) (Multi_Read [[107]])
     (replicate 5 (one_entry [107] \<lparr>sv_expire_at = 60, sv_flags = 0, sv_data = []\<rparr>)) = Returned r"
  by (rule calls_wait_free) simp

text \<open>An expired entry, a lookup of its key and a store of a value that never expires.\<close>

definition old_value :: stored_value where
  "old_value = \<lparr>sv_expire_at = 60, sv_flags = 0, sv_data = []\<rparr>"

definition new_value :: stored_value where
  "new_value = \<lparr>sv_expire_at = 0, sv_flags = 7, sv_data = [1]\<rparr>"

definition race_moves :: "str move list" where
  "race_moves = [Begin (Get_Read [107]), Act 0, Act 0, Begin (Set_Put [107] new_value), Act 1, Act 0]"

lemmas race_run = race_moves_def old_value_def new_value_def one_entry_run Let_def

definition race_end :: "(mem_db, str) conc_state" where
  "race_end = the (conc_moves mem_rocksdb (\<lambda>i. 60000000000) race_moves ([one_entry [107] old_value], []))"

lemma race_end_run: "conc_run mem_rocksdb (\<lambda>i. 60000000000) ([one_entry [107] old_value], []) race_end"
proof (rule conc_moves_run)
  show "conc_moves mem_rocksdb (\<lambda>i. 60000000000) race_moves ([one_entry [107] old_value], []) = Some race_end"
    unfolding race_end_def by (simp add: race_run)
qed

lemma race_end_calls:
  "snd race_end = [(0, Returned (Got [107] (Inr None))), (2, Returned (Was_Set [107] new_value (Inr ())))]"
  unfolding race_end_def by (simp add: race_run)

lemma race_end_states: "fst race_end \<noteq> []"
  unfolding race_end_def by (simp add: race_run)

lemma race_end_contents: "fst (st_db (last (fst race_end))) [107] = None"
  unfolding race_end_def by (simp add: race_run)

lemma old_entry_wf: "entries_wf (fst (st_db (one_entry k v)))"
  by (simp add: one_entry_def entries_wf_def encode_length)

text \<open>
  C12: Every answer is justified, however the operations interleave: a lookup answers what its key
  showed, at a time the clock showed during the call, in contents the database held during the call;
  a batch answers all its keys from the same contents, in order; a delete reports truthfully
  whether the key was there at a moment of the call; and a store or delete that reports success took
  effect at a moment of the call.  (The state \<open>h\<close> may be any in which the operation has returned; in
  the one right after its return the states and times from its beginning on are those of the call.)
\<close>

theorem answers_justified:
  assumes "rocksdb R contents" and "entries_wf (contents (st_db s0))"
    and "conc_run R clk ([s0], []) (h, cs)" and "(b, Returned r) \<in> set cs"
  shows "reply_seen (passed contents h b) (elapsed clk h b) r"
  using rocks_storage.run_from_start [OF rocks_storage_of [OF assms(1)] assms(3,2)] assms(4)
  by (auto simp: rocks_storage.run_inv_def [OF rocks_storage_of [OF assms(1)]])

theorem answers_justified_witness:
  "reply_seen (passed fst (fst race_end) 2) (elapsed (\<lambda>i. 60000000000) (fst race_end) 2)
     (Was_Set [107] new_value (Inr ()) :: str reply)"
proof (rule answers_justified [OF mem.rocksdb_axioms old_entry_wf])
  show "conc_run mem_rocksdb (\<lambda>i. 60000000000) ([one_entry [107] old_value], []) (fst race_end, snd race_end)"
    using race_end_run by simp
  show "(2, Returned (Was_Set [107] new_value (Inr ()))) \<in> set (snd race_end)"
    by (simp add: race_end_calls)
qed

text \<open>
  C18: Well-typed storage stays well-typed under any interleaving: from contents with complete headers,
  every state of a run has complete headers, and no operation ever answers with a decoding error,
  only with errors of the database itself.
\<close>

theorem interleaving_well_typed:
  assumes "rocksdb R contents" and "entries_wf (contents (st_db s0))"
    and "conc_run R clk ([s0], []) (h, cs)"
  shows "(\<forall>s \<in> set h. entries_wf (contents (st_db s))) \<and>
    (\<forall>(b, c) \<in> set cs. \<forall>r e. c = Returned r \<longrightarrow> reply_error r = Some e \<longrightarrow> (\<exists>x. e = RocksDb x))"
  using rocks_storage.run_from_start [OF rocks_storage_of [OF assms(1)] assms(3,2)]
    rocks_storage.run_typed [OF rocks_storage_of [OF assms(1)] assms(3,2)]
  by (simp add: typed_call_def)

theorem interleaving_well_typed_witness: "entries_wf (fst (st_db (last (fst race_end))))"
proof -
  have "conc_run mem_rocksdb (\<lambda>i. 60000000000) ([one_entry [107] old_value], []) (fst race_end, snd race_end)"
    using race_end_run by simp
  from interleaving_well_typed [OF mem.rocksdb_axioms old_entry_wf this] race_end_states show ?thesis
    by simp
qed

text \<open>
  C13: A live entry is safe from everything but its own key's traffic: if a key holds a value that is not
  expired at any time the clock shows, and no operation in progress is a store or delete of the key
  or has read an older entry of it, then whatever lookups, stores and deletes of other keys and
  compactions run from then on, interleaved in any way, the key still holds the value.
\<close>

theorem live_entry_stable:
  assumes "rocksdb R contents" and "conc_run R clk (h, cs) (h', cs')" and "h \<noteq> []"
    and "entries_wf (contents (st_db (last h)))" and "contents (st_db (last h)) k = Some (encode v)"
    and "\<forall>(b, c) \<in> set cs. \<not> threatens k v c"
    and "\<forall>i. length cs \<le> i \<and> i < length cs' \<longrightarrow> \<not> call_writes k (snd (cs' ! i))"
    and "\<forall>t \<in> times_read clk (st_clock (last h)) (st_clock (last h')). \<not> expired_at t v"
  shows "contents (st_db (last h')) k = Some (encode v)"
proof -
  note rs = rocks_storage_of [OF assms(1)]
  have "rocks_storage.entry_safe contents k v (h, cs)"
    using assms(5,6) by (simp add: rocks_storage.entry_safe_def [OF rs])
  from rocks_storage.entry_safe_run [OF rs assms(2) this assms(3,4,7,8)] show ?thesis
    by (simp add: rocks_storage.entry_safe_def [OF rs])
qed

text \<open>A lookup and a compaction while the entry is live.\<close>

theorem live_entry_stable_witness:
  "fst (st_db (last (fst (the (conc_moves mem_rocksdb (\<lambda>i. 60000000000)
     [Begin (Get_Read [107]), Act 0, Compact, Act 0] ([one_entry [107] new_value], [])))))) [107] =
   Some (encode new_value)"
proof -
  let ?cf = "conc_moves mem_rocksdb (\<lambda>i. 60000000000)
    [Begin (Get_Read [107]), Act 0, Compact, Act 0] ([one_entry [107] new_value], [])"
  have "?cf = Some (fst (the ?cf), snd (the ?cf))" by (simp add: race_run)
  note run = conc_moves_run [OF this]
  have cs: "snd (the ?cf) = [(0, Returned (Got [107] (Inr (Some new_value))))]" by (simp add: race_run)
  have live: "\<forall>t \<in> T. \<not> expired_at t new_value" for T by (simp add: expired_at_def new_value_def)
  have new: "\<forall>i. length [] \<le> i \<and> i < length (snd (the ?cf)) \<longrightarrow> \<not> call_writes [107] (snd (snd (the ?cf) ! i))"
    unfolding cs by simp
  have cur: "fst (st_db (last [one_entry [107] new_value])) [107] = Some (encode new_value)"
    "entries_wf (fst (st_db (last [one_entry [107] new_value])))"
    by (simp add: one_entry_def) (simp add: old_entry_wf)
  from live_entry_stable [OF mem.rocksdb_axioms run _ cur(2,1) _ new live] show ?thesis by simp
qed

text \<open>
  C20: What the missing lock costs.  First, an acknowledged store can be lost: a lookup reads an expired
  entry, a store of the same key with a value that never expires is then made and acknowledged, and
  the lookup's delayed delete removes it, although no client asked for a delete.  Second, two
  overlapping deletes of one stored entry can both report that it existed.
\<close>

theorem races_without_lock:
  "(\<exists>h. conc_run mem_rocksdb (\<lambda>i. 60000000000) ([one_entry [107] old_value], [])
      (h, [(0, Returned (Got [107] (Inr None))), (2, Returned (Was_Set [107] new_value (Inr ())))]) \<and>
    fst (st_db (last h)) [107] = None \<and> sv_expire_at new_value = 0) \<and>
   (\<exists>h. conc_run mem_rocksdb (\<lambda>i. 0) ([one_entry [107] old_value], [])
      (h, [(0, Returned (Was_Deleted [107] (Inr True))), (0, Returned (Was_Deleted [107] (Inr True)))]))"
proof
  show "\<exists>h. conc_run mem_rocksdb (\<lambda>i. 60000000000) ([one_entry [107] old_value], [])
      (h, [(0, Returned (Got [107] (Inr None))), (2, Returned (Was_Set [107] new_value (Inr ())))]) \<and>
    fst (st_db (last h)) [107] = None \<and> sv_expire_at new_value = 0"
    using race_end_run race_end_contents race_end_calls
    by (intro exI [of _ "fst race_end"]) (metis new_value_def prod.collapse stored_value.select_convs(1))
  let ?moves = "[Begin (Delete_Read [107]), Begin (Delete_Read [107]), Act 0, Act 1, Act 0, Act 1]"
  let ?cf = "conc_moves mem_rocksdb (\<lambda>i. 0) ?moves ([one_entry [107] old_value], [])"
  have "?cf = Some (fst (the ?cf), snd (the ?cf))" by (simp add: race_run)
  note run = conc_moves_run [OF this]
  have "snd (the ?cf) = [(0, Returned (Was_Deleted [107] (Inr True))), (0, Returned (Was_Deleted [107] (Inr True)))]"
    by (simp add: race_run)
  with run show "\<exists>h. conc_run mem_rocksdb (\<lambda>i. 0) ([one_entry [107] old_value], [])
      (h, [(0, Returned (Was_Deleted [107] (Inr True))), (0, Returned (Was_Deleted [107] (Inr True)))])"
    by metis
qed

end
