(* ===== verification/Interleaved.thy ===== *)
theory Interleaved
  imports Concurrent Handler
begin

text \<open>
  The command handlers of \<open>src/server/handler.rs\<close> when many connections run them at the same time.
  The execution of a command is a machine that makes one action on shared state per step: counting
  the command, reading the clock for a new value, the single steps of the storage operation (theory
  \<open>Concurrent\<close>), and counting the result and writing the reply, for the results of a \<open>get\<close> of several
  keys one key at a time.  A run interleaves any number of
  executions with each other and with compactions.  Run alone the machine is \<open>execute\<close>.
\<close>

section \<open>The handlers step by step\<close>

text \<open>
  The points of an execution: begun, about to make the value of a \<open>set\<close>, in the storage operation, in
  the loop over the results of several keys (with the results counted so far, those to come and the
  text so far), and replied.
\<close>

datatype 'e task =
    Begun command
  | New_Value bytes u32 u64 bytes bool
  | Calling command "'e call"
  | Writing command "bytes list" "(bytes \<times> stored_value option) list" "(bytes \<times> stored_value option) list" bytes
  | Replied command "'e reply option" bytes

text \<open>
  What a handler does with the result of its storage operation.  The loop over the results of several
  keys, which acts on the metrics once per key, is then taken apart by \<open>task_step\<close>.
\<close>

fun write_reply ::
    "('db, 'e) platform \<Rightarrow> 'e reply \<Rightarrow> metrics \<times> response_writer \<Rightarrow> metrics \<times> response_writer" where
  "write_reply P (Got key res) (m, resp) =
     (case res of
        Inr (Some v) \<Rightarrow>
          (inc_hits m, writer_end (writer_value (pf_itoa P) key (sv_flags v) (sv_data v) resp))
      | Inr None \<Rightarrow> (inc_misses m, writer_end resp)
      | Inl e \<Rightarrow>
          (inc_storage_errors m, writer_server_error (storage_error_to_string (pf_db_msg P) e) resp))"
| "write_reply P (Got_Many keys res) (m, resp) =
     (case res of
        Inr results \<Rightarrow>
          (let (m, resp) = write_results (pf_itoa P) results (m, resp) in (m, writer_end resp))
      | Inl e \<Rightarrow>
          (inc_storage_errors m, writer_server_error (storage_error_to_string (pf_db_msg P) e) resp))"
| "write_reply P (Was_Set key v res) (m, resp) =
     (case res of
        Inr u \<Rightarrow> (m, writer_stored resp)
      | Inl e \<Rightarrow>
          (inc_storage_errors m, writer_server_error (storage_error_to_string (pf_db_msg P) e) resp))"
| "write_reply P (Was_Deleted key res) (m, resp) =
     (case res of
        Inr existed \<Rightarrow> (m, if existed then writer_deleted resp else writer_not_found resp)
      | Inl e \<Rightarrow>
          (inc_storage_errors m, writer_server_error (storage_error_to_string (pf_db_msg P) e) resp))"

fun task_step ::
    "('db, 'e) platform \<Rightarrow> 'e task \<times> 'db storage \<times> metrics \<Rightarrow> 'e task \<times> 'db storage \<times> metrics" where
  "task_step P (Begun (Get keys), s, m) =
     (Calling (Get keys) (if length keys = 1 then Get_Read (keys ! 0) else Multi_Read keys), s,
      inc_cmd_get m)"
| "task_step P (Begun (Set key flags exptime data noreply), s, m) =
     (New_Value key flags exptime data noreply, s, inc_cmd_set m)"
| "task_step P (Begun (Delete key noreply), s, m) =
     (Calling (Delete key noreply) (Delete_Read key), s, inc_cmd_delete m)"
| "task_step P (Begun Version, s, m) =
     (Replied Version None (rw_buf (handle_version \<lparr>rw_buf = []\<rparr>)), s, m)"
| "task_step P (Begun Quit, s, m) = (Replied Quit None [], s, m)"
| "task_step P (New_Value key flags exptime data noreply, s, m) =
     (let (v, i) = value_new (pf_clock P) flags exptime data (st_clock s)
      in (Calling (Set key flags exptime data noreply) (Set_Put key v), s\<lparr>st_clock := i\<rparr>, m))"
| "task_step P (Calling cmd c, s, m) =
     (case c of
        Returned (Got_Many keys (Inr results)) \<Rightarrow> (Writing cmd keys [] results [], s, m)
      | Returned r \<Rightarrow>
          (let (m, resp) = write_reply P r (m, \<lparr>rw_buf = []\<rparr>) in (Replied cmd (Some r) (rw_buf resp), s, m))
      | _ \<Rightarrow>
          (let (c, s) = call_step (pf_rocksdb P) (pf_clock P) (c, s) in (Calling cmd c, s, m)))"
| "task_step P (Writing cmd keys counted (x # rest) text, s, m) =
     (let (m, resp) = write_results (pf_itoa P) [x] (m, \<lparr>rw_buf = text\<rparr>)
      in (Writing cmd keys (counted @ [x]) rest (rw_buf resp), s, m))"
| "task_step P (Writing cmd keys counted [] text, s, m) =
     (Replied cmd (Some (Got_Many keys (Inr counted))) (rw_buf (writer_end \<lparr>rw_buf = text\<rparr>)), s, m)"
| "task_step P (Replied cmd r text, s, m) = (Replied cmd r text, s, m)"

lemma task_step_calling:
  "\<nexists>r. c = Returned r \<Longrightarrow> task_step P (Calling cmd c, s, m) =
     (let (c, s) = call_step (pf_rocksdb P) (pf_clock P) (c, s) in (Calling cmd c, s, m))"
  by (cases c) auto

fun by_key :: "'e reply \<Rightarrow> bool" where
  "by_key (Got_Many keys (Inr results)) = True"
| "by_key r = False"

lemma by_keyE:
  assumes "by_key r"
  obtains keys rs where "r = Got_Many keys (Inr rs)"
    "task_step P (Calling cmd (Returned r), s, m) = (Writing cmd keys [] rs [], s, m)"
  using assms by (cases r rule: by_key.cases) auto

lemma task_step_returned:
  "\<not> by_key r \<Longrightarrow> task_step P (Calling cmd (Returned r), s, m) =
     (let (m, resp) = write_reply P r (m, \<lparr>rw_buf = []\<rparr>) in (Replied cmd (Some r) (rw_buf resp), s, m))"
  by (cases r rule: by_key.cases) auto

lemma write_results_Cons:
  "write_results it (x # xs) (m, w) = write_results it xs (write_results it [x] (m, w))"
  by (cases x; cases "snd x") auto

section \<open>Running alone\<close>

inductive task_leads ::
    "('db, 'e) platform \<Rightarrow> 'e task \<times> 'db storage \<times> metrics \<Rightarrow> 'e task \<times> 'db storage \<times> metrics \<Rightarrow> bool"
  for P where
  task_leads_done: "task_leads P (Replied cmd r text, s, m) (Replied cmd r text, s, m)"
| task_leads_step: "task_leads P (task_step P x) out \<Longrightarrow> task_leads P x out"

text \<open>The storage operation as a part of the execution.\<close>

lemma task_leads_call:
  assumes "leads_to (pf_rocksdb P) (pf_clock P) (c, s) (r, s')"
    and "task_leads P (Calling cmd (Returned r), s', m) out"
  shows "task_leads P (Calling cmd c, s, m) out"
  using assms
proof (induction "(c, s)" "(r, s')" arbitrary: c s rule: leads_to.induct)
  case (leads_step c s)
  obtain c1 s1 where st: "call_step (pf_rocksdb P) (pf_clock P) (c, s) = (c1, s1)" by fastforce
  show ?case
  proof (cases "\<exists>r. c = Returned r")
    case True
    with st leads_step show ?thesis by auto
  next
    case False
    with st leads_step(2) [OF st leads_step(3)] task_step_calling [OF False, of P cmd s m] show ?thesis
      by (subst task_leads.simps) simp
  qed
qed

lemma task_leads_writing:
  "write_results (pf_itoa P) rest (m, \<lparr>rw_buf = out\<rparr>) = (m', resp) \<Longrightarrow>
     task_leads P (Writing cmd keys counted rest out, s, m)
       (Replied cmd (Some (Got_Many keys (Inr (counted @ rest)))) (rw_buf (writer_end resp)), s, m')"
proof (induction rest arbitrary: counted m out)
  case Nil
  then show ?case by (subst task_leads.simps) (auto simp: task_leads_done)
next
  case (Cons x rest)
  obtain m1 out1 where w: "write_results (pf_itoa P) [x] (m, \<lparr>rw_buf = out\<rparr>) = (m1, \<lparr>rw_buf = out1\<rparr>)"
    by (metis prod.collapse response_writer.cases)
  have "write_results (pf_itoa P) rest (m1, \<lparr>rw_buf = out1\<rparr>) = (m', resp)"
    using write_results_Cons [of "pf_itoa P" x rest m "\<lparr>rw_buf = out\<rparr>"] Cons.prems w by simp
  from Cons.IH [OF this, of "counted @ [x]"] w show ?case by (subst task_leads.simps) simp
qed

lemma task_leads_reply:
  assumes "write_reply P r (m, \<lparr>rw_buf = []\<rparr>) = (m', resp)"
  shows "task_leads P (Calling cmd (Returned r), s, m) (Replied cmd (Some r) (rw_buf resp), s, m')"
proof (cases "by_key r")
  case True
  then obtain keys rs where r: "r = Got_Many keys (Inr rs)" by (cases r rule: by_key.cases) auto
  obtain m1 w where w: "write_results (pf_itoa P) rs (m, \<lparr>rw_buf = []\<rparr>) = (m1, w)" by fastforce
  with assms r have "m1 = m'" "resp = writer_end w" by auto
  with task_leads_writing [OF w, of cmd keys "[]"] r show ?thesis by (subst task_leads.simps) simp
next
  case False
  with assms have "task_step P (Calling cmd (Returned r), s, m) = (Replied cmd (Some r) (rw_buf resp), s, m')"
    by (simp add: task_step_returned del: task_step.simps)
  with task_leads_step [of P "(Calling cmd (Returned r), s, m)"] show ?thesis by (simp only: task_leads_done)
qed

lemma task_leads_operation:
  assumes "leads_to (pf_rocksdb P) (pf_clock P) (c, s) (r, s')"
    and "write_reply P r (m, \<lparr>rw_buf = []\<rparr>) = (m', resp)"
  shows "task_leads P (Calling cmd c, s, m) (Replied cmd (Some r) (rw_buf resp), s', m')"
  using task_leads_call [OF assms(1) task_leads_reply [OF assms(2)]] .

lemma task_leads_get:
  assumes "handle_get P keys srv \<lparr>rw_buf = []\<rparr> = (srv', resp)"
  shows "\<exists>r. task_leads P
    (Calling cmd (if length keys = 1 then Get_Read (keys ! 0) else Multi_Read keys), srv_storage srv, srv_metrics srv)
    (Replied cmd (Some r) (rw_buf resp), srv_storage srv', srv_metrics srv')"
proof (cases "length keys = 1")
  case True
  obtain res s where g: "rocks_get (pf_rocksdb P) (pf_clock P) (keys ! 0) (srv_storage srv) = (res, s)" by fastforce
  have l: "leads_to (pf_rocksdb P) (pf_clock P) (Get_Read (keys ! 0), srv_storage srv) (Got (keys ! 0) res, s)"
    using leads_get [of "pf_rocksdb P" "pf_clock P" "keys ! 0" "srv_storage srv"] g by simp
  have "srv_storage srv' = s" and
    "write_reply P (Got (keys ! 0) res) (srv_metrics srv, \<lparr>rw_buf = []\<rparr>) = (srv_metrics srv', resp)"
    using assms True g by (auto simp: handle_get_def Let_def split: sum.splits option.splits)
  with task_leads_operation [OF l] True show ?thesis by (intro exI [of _ "Got (keys ! 0) res"]) simp
next
  case False
  obtain res s where g: "rocks_get_multi (pf_rocksdb P) (pf_clock P) keys (srv_storage srv) = (res, s)" by fastforce
  have l: "leads_to (pf_rocksdb P) (pf_clock P) (Multi_Read keys, srv_storage srv) (Got_Many keys res, s)"
    using leads_multi [of "pf_rocksdb P" "pf_clock P" keys "srv_storage srv"] g by simp
  have "srv_storage srv' = s" and
    "write_reply P (Got_Many keys res) (srv_metrics srv, \<lparr>rw_buf = []\<rparr>) = (srv_metrics srv', resp)"
    using assms False g by (auto simp: handle_get_def Let_def split: sum.splits prod.splits)
  with task_leads_operation [OF l] False show ?thesis by (intro exI [of _ "Got_Many keys res"]) simp
qed

lemma task_leads_delete:
  assumes "handle_delete P k srv \<lparr>rw_buf = []\<rparr> = (srv', resp)"
  shows "\<exists>r. task_leads P (Calling cmd (Delete_Read k), srv_storage srv, srv_metrics srv)
    (Replied cmd (Some r) (rw_buf resp), srv_storage srv', srv_metrics srv')"
proof -
  obtain res s where g: "rocks_delete (pf_rocksdb P) k (srv_storage srv) = (res, s)" by fastforce
  have l: "leads_to (pf_rocksdb P) (pf_clock P) (Delete_Read k, srv_storage srv) (Was_Deleted k res, s)"
    using leads_delete [of "pf_rocksdb P" "pf_clock P" k "srv_storage srv"] g by simp
  have "srv_storage srv' = s" and
    "write_reply P (Was_Deleted k res) (srv_metrics srv, \<lparr>rw_buf = []\<rparr>) = (srv_metrics srv', resp)"
    using assms g by (auto simp: handle_delete_def Let_def split: sum.splits)
  with task_leads_operation [OF l] show ?thesis by metis
qed

lemma task_leads_set:
  assumes "handle_set P k f x d srv \<lparr>rw_buf = []\<rparr> = (srv', resp)"
  shows "\<exists>r. task_leads P (New_Value k f x d nr, srv_storage srv, srv_metrics srv)
    (Replied (Set k f x d nr) (Some r) (rw_buf resp), srv_storage srv', srv_metrics srv')"
proof -
  obtain v i where v: "value_new (pf_clock P) f x d (st_clock (srv_storage srv)) = (v, i)" by fastforce
  let ?s = "(srv_storage srv)\<lparr>st_clock := i\<rparr>"
  obtain res s where g: "rocks_set (pf_rocksdb P) k v ?s = (res, s)" by fastforce
  have l: "leads_to (pf_rocksdb P) (pf_clock P) (Set_Put k v, ?s) (Was_Set k v res, s)"
    using leads_set [of "pf_rocksdb P" "pf_clock P" k v ?s] g by simp
  have "srv_storage srv' = s" and
    "write_reply P (Was_Set k v res) (srv_metrics srv, \<lparr>rw_buf = []\<rparr>) = (srv_metrics srv', resp)"
    using assms g v by (auto simp: handle_set_def Let_def split: sum.splits)
  with task_leads_operation [OF l] v show ?thesis
    by (intro exI [of _ "Was_Set k v res"], subst task_leads.simps) simp
qed

lemma task_leads_execute:
  assumes "execute P cmd srv \<lparr>rw_buf = []\<rparr> = (srv', resp)"
  shows "\<exists>r. task_leads P (Begun cmd, srv_storage srv, srv_metrics srv)
    (Replied cmd r (rw_buf resp), srv_storage srv', srv_metrics srv')"
proof (cases cmd)
  case (Get keys)
  with assms task_leads_get [of P keys "upd_metrics inc_cmd_get srv" srv' resp cmd]
  obtain r where "task_leads P (task_step P (Begun cmd, srv_storage srv, srv_metrics srv))
      (Replied cmd (Some r) (rw_buf resp), srv_storage srv', srv_metrics srv')" by auto
  then show ?thesis using task_leads_step by blast
next
  case (Set k f x d nr)
  with assms task_leads_set [of P k f x d "upd_metrics inc_cmd_set srv" srv' resp nr]
  obtain r where "task_leads P (task_step P (Begun cmd, srv_storage srv, srv_metrics srv))
      (Replied cmd (Some r) (rw_buf resp), srv_storage srv', srv_metrics srv')" by auto
  then show ?thesis using task_leads_step by blast
next
  case (Delete k nr)
  with assms task_leads_delete [of P k "upd_metrics inc_cmd_delete srv" srv' resp cmd]
  obtain r where "task_leads P (task_step P (Begun cmd, srv_storage srv, srv_metrics srv))
      (Replied cmd (Some r) (rw_buf resp), srv_storage srv', srv_metrics srv')" by auto
  then show ?thesis using task_leads_step by blast
next
  case Version
  with assms show ?thesis
    by (intro exI [of _ None], subst task_leads.simps) (auto simp: task_leads_done)
next
  case Quit
  with assms show ?thesis
    by (intro exI [of _ None], subst task_leads.simps) (auto simp: task_leads_done)
qed

section \<open>Interleaved executions\<close>

text \<open>
  The storage states so far, the metrics, and the executions with the position at which they began.
  Any number of executions may be begun at any time: a connection begins one when it has parsed a
  command, and its next one only after the reply, which is one of the orders allowed here.
\<close>

type_synonym ('db, 'e) tasks_state = "'db storage list \<times> metrics \<times> (nat \<times> 'e task) list"

inductive tasks_step ::
    "('db, 'e) platform \<Rightarrow> ('db, 'e) tasks_state \<Rightarrow> ('db, 'e) tasks_state \<Rightarrow> bool" for P where
  tasks_begin: "tasks_step P (h, m, ts) (h, m, ts @ [(length h - 1, Begun cmd)])"
| tasks_act:
    "i < length ts \<Longrightarrow> ts ! i = (b, t) \<Longrightarrow> task_step P (t, last h, m) = (t', s, m') \<Longrightarrow>
       tasks_step P (h, m, ts) (h @ [s], m', ts[i := (b, t')])"
| tasks_compact:
    "tasks_step P (h, m, ts) (h @ [rocks_compact (pf_rocksdb P) (pf_clock P) (last h)], m, ts)"

abbreviation tasks_run ::
    "('db, 'e) platform \<Rightarrow> ('db, 'e) tasks_state \<Rightarrow> ('db, 'e) tasks_state \<Rightarrow> bool" where
  "tasks_run P \<equiv> (tasks_step P)\<^sup>*\<^sup>*"

text \<open>The operation a point of an operation belongs to, by its start.\<close>

fun origin :: "'e call \<Rightarrow> 'e call" where
  "origin (Get_Check k b) = Get_Read k"
| "origin (Get_Delete k) = Get_Read k"
| "origin (Multi_Check ks rest rs es) = Multi_Read ks"
| "origin (Multi_Delete ks rs es) = Multi_Read ks"
| "origin (Delete_Write k e) = Delete_Read k"
| "origin (Returned (Got k r)) = Get_Read k"
| "origin (Returned (Got_Many ks r)) = Multi_Read ks"
| "origin (Returned (Was_Set k v r)) = Set_Put k v"
| "origin (Returned (Was_Deleted k r)) = Delete_Read k"
| "origin c = c"

lemma call_step_origin: "call_step R clk (c, s) = (c', s') \<Longrightarrow> origin c' = origin c"
  by (cases "(R, clk, c, s)" rule: call_step.cases)
    (auto simp: Let_def split: prod.splits sum.splits option.splits if_splits)

text \<open>
  A reply to a command is justified by contents \<open>S\<close> and times \<open>T\<close> if it reports a storage error, or
  else: a \<open>get\<close> shows all its items as they were in one of the contents, each at one of the times;
  \<open>STORED\<close> means the value, with a deadline from one of the times, was there; \<open>DELETED\<close> that the key
  was there and then was not, \<open>NOT_FOUND\<close> that it was not.
\<close>

fun justified :: "(bytes \<Rightarrow> bytes option) set \<Rightarrow> u64 set \<Rightarrow> command \<Rightarrow> bytes \<Rightarrow> bool" where
  "justified S T (Get ks) text \<longleftrightarrow> (\<exists>msg. text = server_error_line msg) \<or>
     (\<exists>m \<in> S. \<exists>ts. length ts = length ks \<and> set ts \<subseteq> T \<and> text = reply_text (found_items (stored_map m) ts ks))"
| "justified S T (Set k f x d nr) text \<longleftrightarrow> (\<exists>msg. text = server_error_line msg) \<or>
     text = bs ''STORED'' @ crlf \<and>
     (\<exists>m \<in> S. \<exists>t \<in> T. stored_map m k = Some (with_expire_at f (deadline t x) d))"
| "justified S T (Delete k nr) text \<longleftrightarrow> (\<exists>msg. text = server_error_line msg) \<or>
     text = bs ''DELETED'' @ crlf \<and> (\<exists>m \<in> S. stored_map m k \<noteq> None) \<and> (\<exists>m \<in> S. stored_map m k = None) \<or>
     text = bs ''NOT_FOUND'' @ crlf \<and> (\<exists>m \<in> S. stored_map m k = None)"
| "justified S T Version text \<longleftrightarrow> text = bs ''VERSION petracache 0.1.0'' @ crlf"
| "justified S T Quit text \<longleftrightarrow> text = []"

fun starts :: "u64 set \<Rightarrow> command \<Rightarrow> 'e call \<Rightarrow> bool" where
  "starts T (Get ks) c \<longleftrightarrow> c = (if length ks = 1 then Get_Read (ks ! 0) else Multi_Read ks)"
| "starts T (Set k f x d nr) c \<longleftrightarrow> (\<exists>t \<in> T. c = Set_Put k (with_expire_at f (deadline t x) d))"
| "starts T (Delete k nr) c \<longleftrightarrow> c = Delete_Read k"
| "starts T cmd c \<longleftrightarrow> False"

fun task_seen :: "(bytes \<Rightarrow> bytes option) set \<Rightarrow> u64 set \<Rightarrow> 'e task \<Rightarrow> bool" where
  "task_seen S T (Calling cmd c) \<longleftrightarrow> call_seen S T c \<and> starts T cmd (origin c)"
| "task_seen S T (Writing cmd ks done_rs rest text) \<longleftrightarrow>
     call_seen S T (Returned (Got_Many ks (Inr (done_rs @ rest))) :: 'e call) \<and> starts T cmd (Multi_Read ks :: 'e call) \<and>
     text = concat (map (\<lambda>(k, f, d). value_text k f d) (result_items done_rs))"
| "task_seen S T (Replied cmd r text) \<longleftrightarrow> justified S T cmd text"
| "task_seen S T t \<longleftrightarrow> True"

lemma starts_mono: "starts T cmd c \<Longrightarrow> T \<subseteq> T' \<Longrightarrow> starts T' cmd c"
  by (cases cmd) auto

lemma justified_mono: "justified S T cmd text \<Longrightarrow> S \<subseteq> S' \<Longrightarrow> T \<subseteq> T' \<Longrightarrow> justified S' T' cmd text"
proof (cases cmd)
  case (Get ks)
  assume "justified S T cmd text" "S \<subseteq> S'" "T \<subseteq> T'"
  with Get show ?thesis by simp (meson order_trans subsetD)
qed (simp; blast)+

lemma task_seen_mono: "task_seen S T t \<Longrightarrow> S \<subseteq> S' \<Longrightarrow> T \<subseteq> T' \<Longrightarrow> task_seen S' T' t"
proof (cases t)
  case (Writing cmd ks done_rs rest out)
  assume "task_seen S T t" "S \<subseteq> S'" "T \<subseteq> T'"
  with Writing call_seen_mono [of S T "Returned (Got_Many ks (Inr (done_rs @ rest))) :: 'a call" S' T']
    starts_mono [of T cmd "Multi_Read ks :: 'a call" T'] show ?thesis by (simp del: call_seen.simps)
qed (auto intro: call_seen_mono starts_mono justified_mono)

lemma items_seen_times:
  assumes "items_seen T m rs"
  shows "\<exists>ts. length ts = length rs \<and> set ts \<subseteq> T \<and>
    result_items rs = found_items (stored_map m) ts (map fst rs)"
  using assms
proof (induction rs)
  case (Cons x rs)
  obtain k r where x: "x = (k, r)" by fastforce
  with Cons.prems obtain t where t: "t \<in> T" "r = visible t (stored_map m) k" "items_seen T m rs"
    by (auto simp: items_seen_def stored_map_live_view)
  with Cons.IH obtain ts where "length ts = length rs" "set ts \<subseteq> T"
    "result_items rs = found_items (stored_map m) ts (map fst rs)" by blast
  with x t show ?case by (intro exI [of _ "t # ts"]) (auto split: option.split)
qed simp

lemma starts_origin:
  "starts T cmd (Get_Read k) \<Longrightarrow> cmd = Get [k]"
  "starts T cmd (Multi_Read ks) \<Longrightarrow> cmd = Get ks"
  "starts T cmd (Set_Put k v) \<Longrightarrow>
     \<exists>f x d nr. cmd = Set k f x d nr \<and> (\<exists>t \<in> T. v = with_expire_at f (deadline t x) d)"
  "starts T cmd (Delete_Read k) \<Longrightarrow> \<exists>nr. cmd = Delete k nr"
  by (cases cmd; auto simp: length_Suc_conv split: if_splits)+

lemma result_items_append: "result_items (xs @ ys) = result_items xs @ result_items ys"
  by (simp add: result_items_def)

lemma stored_map_encode: "m k = Some (encode v) \<Longrightarrow> stored_map m k = Some v"
  by (simp add: stored_map_def)

context petracache_platform
begin

lemma got_justified:
  assumes "write_reply P (Got k (Inr r)) (m, \<lparr>rw_buf = []\<rparr>) = (m', resp)" and "c \<in> S" and "t \<in> T"
    and "r = live_view t c k"
  shows "justified S T (Get [k]) (rw_buf resp)"
proof -
  have "rw_buf resp = reply_text (found_items (stored_map c) [t] [k])"
    using assms(1,4) by (auto simp: stored_map_live_view reply_text_def rw_buf_value split: option.splits)
  with assms(2,3) show ?thesis
    by (simp del: found_items.simps) (metis One_nat_def empty_subsetI insert_subset length_Cons
        list.set(1,2) list.size(3))
qed

lemma got_many_justified:
  assumes "c \<in> S" and "map fst rs = ks" and "items_seen T c rs"
  shows "justified S T (Get ks) (reply_text (result_items rs))"
proof -
  from items_seen_times [OF assms(3)] obtain ts where
    ts: "length ts = length rs" "set ts \<subseteq> T" "result_items rs = found_items (stored_map c) ts ks"
    using assms(2) by blast
  moreover have "length ts = length ks" using ts(1) assms(2) by auto
  ultimately show ?thesis using assms(1) by auto
qed

lemma error_justified:
  assumes "reply_error r = Some e" and "write_reply P r (m, \<lparr>rw_buf = []\<rparr>) = (m', resp)"
    and "starts T cmd (origin (Returned r))"
  shows "justified S T cmd (rw_buf resp)"
proof -
  have "rw_buf resp = server_error_line (storage_error_to_string (pf_db_msg P) e)"
    using assms(1,2) by (cases r rule: reply_error.cases) (auto simp: rw_server_error simp del: rw_buf_simps)
  then show ?thesis using assms(3) by (cases cmd) auto
qed

lemma write_reply_justified:
  assumes w: "write_reply P r (m, \<lparr>rw_buf = []\<rparr>) = (m', resp)" and seen: "reply_seen S T r"
    and st: "starts T cmd (origin (Returned r))" and wf: "\<forall>m \<in> S. entries_wf m" and one: "\<not> by_key r"
  shows "justified S T cmd (rw_buf resp)"
proof (cases "reply_error r")
  case None
  show ?thesis
  proof (cases r)
    case (Got k res)
    with None obtain x where x: "res = Inr x" by (cases res) auto
    with seen Got obtain c t where "c \<in> S" "t \<in> T" "x = live_view t c k" by auto
    moreover have "cmd = Get [k]" using starts_origin(1) st Got by simp
    ultimately show ?thesis using got_justified [OF w [unfolded Got x]] by blast
  next
    case (Got_Many ks res)
    with None one show ?thesis by (cases res) auto
  next
    case (Was_Set k v res)
    with None obtain x where x: "res = Inr x" by (cases res) auto
    from st Was_Set have "starts T cmd (Set_Put k v :: 'e call)" by simp
    from starts_origin(3) [OF this] x Was_Set w seen show ?thesis by (fastforce dest: stored_map_encode)
  next
    case (Was_Deleted k res)
    with None obtain x where x: "res = Inr x" by (cases res) auto
    from st Was_Deleted have "starts T cmd (Delete_Read k :: 'e call)" by simp
    from starts_origin(4) [OF this] obtain nr where "cmd = Delete k nr" ..
    moreover have "\<forall>m \<in> S. stored_map m k = None \<longleftrightarrow> m k = None" using stored_map_None wf by blast
    ultimately show ?thesis using x Was_Deleted w seen by (cases x) auto
  qed
qed (use error_justified [OF _ w st] in blast)

text \<open>A step keeps an execution justified.\<close>

lemma task_step_facts:
  assumes "task_step P (t, s, m) = (t', s', m')"
  shows "st_clock s \<le> st_clock s' \<and>
    (entries_wf (contents (st_db s)) \<longrightarrow> entries_wf (contents (st_db s')))"
proof (cases "(P, t, s, m)" rule: task_step.cases)
  case (7 P' cmd c s0 m0)
  show ?thesis
  proof (cases "\<exists>r. c = Returned r")
    case False
    with assms 7 task_step_calling [OF False, of P cmd s m] show ?thesis
      by (auto simp: split_def Let_def intro: call_step_clock [OF prod.collapse [symmetric]]
          dest: call_step_wf [OF prod.collapse [symmetric]])
  next
    case True
    then obtain r where r: "c = Returned r" by blast
    have "s' = s"
    proof (cases "by_key r")
      case True
      with assms 7 r show ?thesis by (elim by_keyE [of r P cmd s m]) (simp del: task_step.simps)
    next
      case False
      from assms 7 r task_step_returned [OF False, of P cmd s m] show ?thesis
        by (simp add: split_beta Let_def del: task_step.simps)
    qed
    then show ?thesis by simp
  qed
qed (use assms in \<open>auto dest: value_new_clock split: prod.splits\<close>)

lemma task_step_seen:
  assumes "task_seen S T t" and st: "task_step P (t, s, m) = (t', s', m')"
    and c: "contents (st_db s) \<in> S" "contents (st_db s') \<in> S" and t: "reading (pf_clock P) (st_clock s) \<in> T"
    and wf: "\<forall>m \<in> S. entries_wf m"
  shows "task_seen S T t'"
proof (cases "(P, t, s, m)" rule: task_step.cases)
  case (6 P' k f x d nr s0 m0)
  obtain v i where v: "value_new (pf_clock P) f x d (st_clock s) = (v, i)" by fastforce
  have "v = with_expire_at f (deadline (reading (pf_clock P) (st_clock s)) x) d"
    using value_new_deadline [OF v] by simp
  with 6 st v t show ?thesis by auto
next
  case (7 P' cmd c' s0 m0)
  then have seen: "call_seen S T c'" "starts T cmd (origin c')" using assms(1) by auto
  show ?thesis
  proof (cases "\<exists>r. c' = Returned r")
    case True
    then obtain r where r: "c' = Returned r" by blast
    obtain m1 resp where "write_reply P r (m, \<lparr>rw_buf = []\<rparr>) = (m1, resp)" by fastforce
    note w = this
    show ?thesis
    proof (cases "by_key r")
      case True
      then obtain ks rs where k: "r = Got_Many ks (Inr rs)" "t' = Writing cmd ks [] rs []"
        using 7 st r by (elim by_keyE [of r P cmd s m]) auto
      then show ?thesis using seen r by (simp del: call_seen.simps) 
    next
      case False
      with task_step_returned [OF False, of P cmd s m] 7 st r w have "t' = Replied cmd (Some r) (rw_buf resp)"
        by (simp del: task_step.simps)
      with write_reply_justified [OF w _ _ wf False, of T cmd] seen r show ?thesis by simp
    qed
  next
    case False
    obtain c1 s1 where c1: "call_step (pf_rocksdb P) (pf_clock P) (c', s) = (c1, s1)" by fastforce
    with task_step_calling [OF False, of P cmd s m] 7 st have "t' = Calling cmd c1" "s' = s1" by auto
    with call_step_seen [OF seen(1) c1 c(1) _ t] c(2) call_step_origin [OF c1] seen(2) show ?thesis by simp
  qed
next
  case (8 P' cmd ks done_rs x rest out s0 m0)
  obtain m1 w where w: "write_results (pf_itoa P) [x] (m, \<lparr>rw_buf = out\<rparr>) = (m1, w)" by fastforce
  with write_results_eq [OF w] 8 assms(1) st show ?thesis by (auto simp: result_items_append)
next
  case (9 P' cmd ks done_rs out s0 m0)
  with assms(1) have "starts T cmd (Multi_Read ks :: 'e call)"
    and out: "out = concat (map (\<lambda>(k, f, d). value_text k f d) (result_items done_rs))"
    and "\<exists>c \<in> S. map fst done_rs = ks \<and> items_seen T c done_rs" by auto
  then have "justified S T cmd (reply_text (result_items done_rs))"
    using got_many_justified starts_origin(2) by blast
  with 9 st out show ?thesis by (auto simp: reply_text_def)
qed (use assms in \<open>auto simp: handle_version_def version_string_def bs_def\<close>)

definition tasks_inv :: "('db, 'e) tasks_state \<Rightarrow> bool" where
  "tasks_inv cf \<longleftrightarrow> (case cf of (h, m, ts) \<Rightarrow> h \<noteq> [] \<and> (\<forall>s \<in> set h. entries_wf (contents (st_db s))) \<and>
     (\<forall>(b, t) \<in> set ts. b < length h \<and> st_clock (h ! b) \<le> st_clock (last h) \<and>
       task_seen (passed contents h b) (elapsed (pf_clock P) h b) t))"

lemma tasks_inv_extend:
  assumes "tasks_inv (h, m, ts)" and "st_clock (last h) \<le> st_clock s" and "entries_wf (contents (st_db s))"
  shows "tasks_inv (h @ [s], m', ts)"
proof -
  have "b < length (h @ [s]) \<and> st_clock ((h @ [s]) ! b) \<le> st_clock s \<and>
      task_seen (passed contents (h @ [s]) b) (elapsed (pf_clock P) (h @ [s]) b) t" if "(b, t) \<in> set ts" for b t
  proof -
    have b: "b < length h" "st_clock (h ! b) \<le> st_clock (last h)"
      "task_seen (passed contents h b) (elapsed (pf_clock P) h b) t"
      using assms(1) that by (auto simp: tasks_inv_def)
    with assms(2) task_seen_mono [OF b(3) _ elapsed_snoc [OF b(1) assms(2)]] show ?thesis
      by (simp add: nth_append passed_snoc subset_insertI)
  qed
  with assms(1,3) show ?thesis unfolding tasks_inv_def by auto
qed

lemma tasks_inv_act:
  assumes inv: "tasks_inv (h, m, ts)" and i: "i < length ts" "ts ! i = (b, t)"
    and st: "task_step P (t, last h, m) = (t', s, m')"
  shows "tasks_inv (h @ [s], m', ts[i := (b, t')])"
proof -
  have mem: "(b, t) \<in> set ts" using i nth_mem by metis
  have b: "b < length h" "st_clock (h ! b) \<le> st_clock (last h)" and wf: "entries_wf (contents (st_db (last h)))"
    using inv mem by (auto simp: tasks_inv_def)
  have le: "st_clock (last h) \<le> st_clock s" and wf': "entries_wf (contents (st_db s))"
    using task_step_facts [OF st] wf by auto
  note ext = tasks_inv_extend [OF inv le wf']
  have "\<forall>x \<in> passed contents (h @ [s]) b. entries_wf x"
    using ext [of m] by (auto simp: tasks_inv_def passed_def dest: in_set_dropD)
  moreover have "task_seen (passed contents (h @ [s]) b) (elapsed (pf_clock P) (h @ [s]) b) t"
    using ext [of m] mem by (auto simp: tasks_inv_def)
  ultimately have "task_seen (passed contents (h @ [s]) b) (elapsed (pf_clock P) (h @ [s]) b) t'"
    using task_step_seen [OF _ st _ _ elapsed_now [OF b le]] passed_last [OF b(1)] b(1) by (simp add: passed_snoc)
  with ext [of m'] b le show ?thesis
    unfolding tasks_inv_def by (auto simp: nth_append dest!: set_update_subset_insert [THEN subsetD])
qed

lemma tasks_inv_run:
  assumes "tasks_run P ([s0], m0, []) cf" and "entries_wf (contents (st_db s0))"
  shows "tasks_inv cf"
  using assms(1)
proof (induction rule: rtranclp_induct)
  case base
  show ?case using assms(2) by (simp add: tasks_inv_def)
next
  case (step cf cf')
  from step(2) show ?case
  proof cases
    case (tasks_begin h m ts cmd)
    with step.IH show ?thesis by (auto simp: tasks_inv_def last_conv_nth)
  next
    case (tasks_act i ts b t h m t' s m')
    with step.IH tasks_inv_act show ?thesis by blast
  next
    case (tasks_compact h m ts)
    with step.IH have "entries_wf (contents (st_db (last h)))" by (auto simp: tasks_inv_def)
    with step.IH tasks_compact tasks_inv_extend compact_wf compact_drops [OF refl] show ?thesis by blast
  qed
qed

end

section \<open>What the counters count\<close>

text \<open>Hits, misses and errors of a result.\<close>

fun reply_hits :: "'e reply \<Rightarrow> nat" where
  "reply_hits (Got k (Inr (Some v))) = 1"
| "reply_hits (Got_Many ks (Inr rs)) = length (result_items rs)"
| "reply_hits r = 0"

fun reply_misses :: "'e reply \<Rightarrow> nat" where
  "reply_misses (Got k (Inr None)) = 1"
| "reply_misses (Got_Many ks (Inr rs)) = length rs - length (result_items rs)"
| "reply_misses r = 0"

text \<open>The number of executions that have got past the counter of their command.\<close>

fun task_command :: "'e task \<Rightarrow> command option" where
  "task_command (Begun cmd) = None"
| "task_command (New_Value k f x d nr) = Some (Set k f x d nr)"
| "task_command (Calling cmd c) = Some cmd"
| "task_command (Writing cmd ks done_rs rest text) = Some cmd"
| "task_command (Replied cmd r text) = Some cmd"

text \<open>The result an execution has counted, for several keys as far as it has got.\<close>

fun task_reply :: "'e task \<Rightarrow> 'e reply option" where
  "task_reply (Replied cmd r text) = r"
| "task_reply (Writing cmd ks done_rs rest text) = Some (Got_Many ks (Inr done_rs))"
| "task_reply t = None"

definition counted :: "(command \<Rightarrow> bool) \<Rightarrow> 'e task \<Rightarrow> nat" where
  "counted p t = (case task_command t of None \<Rightarrow> 0 | Some cmd \<Rightarrow> if p cmd then 1 else 0)"

definition replied :: "('e reply \<Rightarrow> nat) \<Rightarrow> 'e task \<Rightarrow> nat" where
  "replied f t = (case task_reply t of None \<Rightarrow> 0 | Some r \<Rightarrow> f r)"

definition over_tasks :: "('e task \<Rightarrow> nat) \<Rightarrow> (nat \<times> 'e task) list \<Rightarrow> nat" where
  "over_tasks f ts = sum_list (map (\<lambda>(b, t). f t) ts)"

lemma over_tasks_simps:
  "over_tasks f [] = 0" "over_tasks f (ts @ [(b, t)]) = over_tasks f ts + f t"
  by (simp_all add: over_tasks_def)

lemma over_tasks_update:
  assumes "i < length ts" and "ts ! i = (b, t)"
  shows "over_tasks f (ts[i := (b, t')]) + f t = over_tasks f ts + f t'"
proof -
  have "f t \<le> over_tasks f ts"
    using assms nth_mem [OF assms(1)] by (auto simp: over_tasks_def intro!: member_le_sum_list)
  then show ?thesis using assms by (simp add: over_tasks_def map_update sum_list_update)
qed

text \<open>A counter that every step moves together with what its execution stands for.\<close>

lemma tasks_counter:
  assumes step: "\<And>t s m t' s' m'. task_step P (t, s, m) = (t', s', m') \<Longrightarrow> count m' + f t = count m + f t'"
    and zero: "\<And>cmd. f (Begun cmd) = 0" and run: "tasks_run P ([s0], m0, []) (h, m, ts)"
  shows "count m = count m0 + over_tasks f ts"
  using run
proof (induction "(h, m, ts)" arbitrary: h m ts rule: rtranclp_induct)
  case base
  then show ?case by (simp add: over_tasks_simps)
next
  case (step cf)
  from step(2) show ?case
  proof cases
    case (tasks_begin ts0 cmd)
    with step(3) zero show ?thesis by (simp add: over_tasks_simps)
  next
    case (tasks_act i ts0 b t h0 m1 t' s)
    with step(3) [of h0 m1 ts0] assms(1) [OF tasks_act(6)] over_tasks_update [OF tasks_act(4,5), of f t']
    show ?thesis by simp
  next
    case (tasks_compact h0)
    with step(3) show ?thesis by simp
  qed
qed

fun is_get :: "command \<Rightarrow> bool" where
  "is_get (Get ks) = True"
| "is_get cmd = False"

fun is_set :: "command \<Rightarrow> bool" where
  "is_set (Set k f x d nr) = True"
| "is_set cmd = False"

fun is_delete :: "command \<Rightarrow> bool" where
  "is_delete (Delete k nr) = True"
| "is_delete cmd = False"

definition reply_errors :: "'e reply \<Rightarrow> nat" where
  "reply_errors r = (if reply_error r = None then 0 else 1)"

lemma counters_of_incs [simp]:
  "m_get_hits (count_gets h n m) = m_get_hits m + h" "m_get_misses (count_gets h n m) = m_get_misses m + n"
  "m_cmd_get (count_gets h n m) = m_cmd_get m" "m_cmd_set (count_gets h n m) = m_cmd_set m"
  "m_cmd_delete (count_gets h n m) = m_cmd_delete m"
  "m_storage_errors (count_gets h n m) = m_storage_errors m"
  by (simp_all add: count_gets_def)

context petracache_platform
begin

lemma write_reply_counts:
  assumes "write_reply P r (m, resp) = (m', resp')"
  shows "m_get_hits m' = m_get_hits m + reply_hits r \<and> m_get_misses m' = m_get_misses m + reply_misses r \<and>
    m_storage_errors m' = m_storage_errors m + reply_errors r \<and> m_cmd_get m' = m_cmd_get m \<and>
    m_cmd_set m' = m_cmd_set m \<and> m_cmd_delete m' = m_cmd_delete m"
proof (cases r)
  case (Got_Many ks res)
  show ?thesis
  proof (cases res)
    case (Inr rs)
    obtain m1 w where w: "write_results (pf_itoa P) rs (m, resp) = (m1, w)" by fastforce
    with write_results_eq [OF w] assms Got_Many Inr show ?thesis by (auto simp: reply_errors_def)
  qed (use assms Got_Many in \<open>auto simp: reply_errors_def inc_storage_errors_def\<close>)
qed (use assms in \<open>auto simp: reply_errors_def inc_storage_errors_def inc_hits_def inc_misses_def
    split: sum.splits option.splits\<close>)

lemma task_step_counts:
  assumes "task_step P (t, s, m) = (t', s', m')"
  shows "m_cmd_get m' + counted is_get t = m_cmd_get m + counted is_get t'"
    and "m_cmd_set m' + counted is_set t = m_cmd_set m + counted is_set t'"
    and "m_cmd_delete m' + counted is_delete t = m_cmd_delete m + counted is_delete t'"
    and "m_get_hits m' + replied reply_hits t = m_get_hits m + replied reply_hits t'"
    and "m_get_misses m' + replied reply_misses t = m_get_misses m + replied reply_misses t'"
    and "m_storage_errors m' + replied reply_errors t = m_storage_errors m + replied reply_errors t'"
proof -
  have "m_cmd_get m' + counted is_get t = m_cmd_get m + counted is_get t' \<and>
    m_cmd_set m' + counted is_set t = m_cmd_set m + counted is_set t' \<and>
    m_cmd_delete m' + counted is_delete t = m_cmd_delete m + counted is_delete t' \<and>
    m_get_hits m' + replied reply_hits t = m_get_hits m + replied reply_hits t' \<and>
    m_get_misses m' + replied reply_misses t = m_get_misses m + replied reply_misses t' \<and>
    m_storage_errors m' + replied reply_errors t = m_storage_errors m + replied reply_errors t'"
  proof (cases "(P, t, s, m)" rule: task_step.cases)
    case (7 P' cmd c s0 m0)
    show ?thesis
    proof (cases "\<exists>r. c = Returned r")
      case True
      then obtain r where r: "c = Returned r" by blast
      obtain m1 resp where w: "write_reply P r (m, \<lparr>rw_buf = []\<rparr>) = (m1, resp)" by fastforce
      show ?thesis
      proof (cases "by_key r")
        case True
        then obtain ks rs where k: "t' = Writing cmd ks [] rs []" "m' = m"
          using 7 assms r by (elim by_keyE [of r P cmd s m]) auto
        then show ?thesis using 7 r by (simp add: counted_def replied_def reply_errors_def)
      next
        case False
        with task_step_returned [OF False, of P cmd s m] 7 assms r w
        have "t' = Replied cmd (Some r) (rw_buf resp)" "m' = m1" by (simp_all del: task_step.simps)
        with write_reply_counts [OF w] 7 r show ?thesis by (simp add: counted_def replied_def)
      qed
    next
      case False
      with task_step_calling [OF False, of P cmd s m] assms 7 show ?thesis
        by (auto simp: counted_def replied_def split: prod.splits)
    qed
  next
    case (8 P' cmd ks done_rs x rest out s0 m0)
    obtain m1 w where w: "write_results (pf_itoa P) [x] (m, \<lparr>rw_buf = out\<rparr>) = (m1, w)" by fastforce
    with write_results_eq [OF w] 8 assms result_items_length [of "[x]"] result_items_length [of done_rs]
    show ?thesis
      by (auto simp: counted_def replied_def reply_errors_def result_items_append)
  qed (use assms in \<open>auto simp: counted_def replied_def inc_cmd_get_def inc_cmd_set_def inc_cmd_delete_def
      split: prod.splits\<close>)
  then show "m_cmd_get m' + counted is_get t = m_cmd_get m + counted is_get t'"
    and "m_cmd_set m' + counted is_set t = m_cmd_set m + counted is_set t'"
    and "m_cmd_delete m' + counted is_delete t = m_cmd_delete m + counted is_delete t'"
    and "m_get_hits m' + replied reply_hits t = m_get_hits m + replied reply_hits t'"
    and "m_get_misses m' + replied reply_misses t = m_get_misses m + replied reply_misses t'"
    and "m_storage_errors m' + replied reply_errors t = m_storage_errors m + replied reply_errors t'"
    by blast+
qed

end

section \<open>Runs that can be evaluated\<close>

datatype server_move = Receive command | Advance nat | Compaction

fun tasks_move ::
    "('db, 'e) platform \<Rightarrow> server_move \<Rightarrow> ('db, 'e) tasks_state \<Rightarrow> ('db, 'e) tasks_state" where
  "tasks_move P (Receive cmd) (h, m, ts) = (h, m, ts @ [(length h - 1, Begun cmd)])"
| "tasks_move P (Advance i) (h, m, ts) =
     (if i < length ts then
        (let (b, t) = ts ! i; (t', s, m') = task_step P (t, last h, m) in (h @ [s], m', ts[i := (b, t')]))
      else (h, m, ts))"
| "tasks_move P Compaction (h, m, ts) =
     (h @ [rocks_compact (pf_rocksdb P) (pf_clock P) (last h)], m, ts)"

lemma tasks_move_run: "tasks_run P cf (tasks_move P mv cf)"
proof (cases "(P, mv, cf)" rule: tasks_move.cases)
  case (2 P' i h m ts)
  obtain b t where t: "ts ! i = (b, t)" by fastforce
  obtain t' s m' where "task_step P (t, last h, m) = (t', s, m')" by (metis prod.collapse)
  with 2 t tasks_act [of i ts b t P h m t' s m'] show ?thesis by auto
qed (auto intro: tasks_step.intros tasks_begin [unfolded One_nat_def])

lemma tasks_moves_run: "tasks_run P cf (fold (tasks_move P) mvs cf)"
proof (induction mvs arbitrary: cf)
  case (Cons mv mvs)
  from rtranclp_trans [OF tasks_move_run Cons.IH] show ?case by simp
qed simp

section \<open>Properties\<close>

text \<open>
  Run alone, the step machine of a command is its handler: making the steps one after the other
  leads from the beginning of the execution to exactly the reply, the storage and the metrics that
  \<open>execute\<close> gives.
\<close>

theorem handlers_alone_equal_execute:
  "\<exists>r. task_leads P (Begun cmd, srv_storage srv, srv_metrics srv)
     (let (srv', resp) = execute P cmd srv (writer_new n)
      in (Replied cmd r (rw_buf resp), srv_storage srv', srv_metrics srv'))"
proof -
  obtain srv' resp where ex: "execute P cmd srv \<lparr>rw_buf = []\<rparr> = (srv', resp)" by fastforce
  with task_leads_execute [OF ex] show ?thesis by (simp add: writer_new_def)
qed

text \<open>
  C5: Replies stay truthful under concurrency: however the executions of commands from any number of
  connections and compactions interleave, every reply is a storage error or is justified by what
  the server held while the command was executed: a \<open>get\<close> shows all its items as they were at one
  moment, each live at a time the clock showed; \<open>STORED\<close> means that the client's value, with the
  deadline its \<open>exptime\<close> gives, was there; \<open>DELETED\<close> that the key was there and then was not, and
  \<open>NOT_FOUND\<close> that it was not.
\<close>

theorem concurrent_replies_justified:
  assumes "petracache_platform P contents" and "entries_wf (contents (st_db s0))"
    and "tasks_run P ([s0], m0, []) (h, m, ts)" and "(b, Replied cmd r text) \<in> set ts"
  shows "justified (passed contents h b) (elapsed (pf_clock P) h b) cmd text"
  using petracache_platform.tasks_inv_run [OF assms(1,3,2)] assms(4)
  by (auto simp: petracache_platform.tasks_inv_def [OF assms(1)])

text \<open>A \<open>get\<close> that finds its key expired while another connection stores it.\<close>

definition overlap_moves :: "server_move list" where
  "overlap_moves = [Receive (Get [[107]]), Advance 0, Advance 0, Receive (Set [107] 7 0 [1] False),
     Advance 1, Advance 1, Advance 0, Advance 1, Advance 1, Advance 0, Advance 0]"

definition overlap_end :: "(mem_db, str) tasks_state" where
  "overlap_end = fold (tasks_move (ref_platform (\<lambda>i. 60000000000))) overlap_moves
     ([one_entry [107] old_value], metrics_new, [])"

lemma overlap_end_tasks:
  "map (\<lambda>(b, t). (b, task_command t, case t of Replied cmd r text \<Rightarrow> Some text | _ \<Rightarrow> None)) (snd (snd overlap_end)) =
     [(0, Some (Get [[107]]), Some (bs ''END'' @ crlf)),
      (2, Some (Set [107] 7 0 [1] False), Some (bs ''STORED'' @ crlf))]"
  unfolding overlap_end_def overlap_moves_def
  by (simp add: run_simps one_entry_run old_value_def Let_def)

lemma overlap_end_run:
  "tasks_run (ref_platform (\<lambda>i. 60000000000)) ([one_entry [107] old_value], metrics_new, []) overlap_end"
  unfolding overlap_end_def by (rule tasks_moves_run)

lemma overlap_end_set:
  "\<exists>r. (2, Replied (Set [107] 7 0 [1] False) r (bs ''STORED'' @ crlf)) \<in> set (snd (snd overlap_end))"
proof -
  have "(2, Some (Set [107] 7 0 [1] False), Some (bs ''STORED'' @ crlf)) \<in>
    set (map (\<lambda>(b, t). (b, task_command t, case t of Replied cmd r text \<Rightarrow> Some text | _ \<Rightarrow> None))
      (snd (snd overlap_end)))"
    unfolding overlap_end_tasks by simp
  then show ?thesis by (fastforce split: task.splits)
qed

theorem concurrent_replies_justified_witness:
  "\<exists>m \<in> passed fst (fst overlap_end) 2. \<exists>t \<in> elapsed (\<lambda>i. 60000000000) (fst overlap_end) 2.
     stored_map m [107] = Some (with_expire_at 7 (deadline t 0) [1])"
proof -
  have run: "tasks_run (ref_platform (\<lambda>i. 60000000000)) ([one_entry [107] old_value], metrics_new, [])
      (fst overlap_end, fst (snd overlap_end), snd (snd overlap_end))"
    using overlap_end_run by simp
  from overlap_end_set obtain r where
    r: "(2, Replied (Set [107] 7 0 [1] False) r (bs ''STORED'' @ crlf)) \<in> set (snd (snd overlap_end))" ..
  have "\<nexists>msg. bs ''STORED'' @ crlf = server_error_line msg"
    by (auto simp: server_error_line_def bs_def)
  with concurrent_replies_justified [OF ref.petracache_platform_axioms old_entry_wf run r] show ?thesis
    by simp
qed

text \<open>
  C6: The counters are exact under concurrency: in every state of every interleaving the command
  counters have grown by the number of executions that got past them, the hits and misses by those
  of the lookups that have replied and, for a lookup of several keys that is writing its reply, of
  the keys it has got past, and the storage errors by the number of replies that report one.
\<close>

theorem concurrent_counters_exact:
  assumes "petracache_platform P contents" and "tasks_run P ([s0], m0, []) (h, m, ts)"
  shows "m_cmd_get m = m_cmd_get m0 + over_tasks (counted is_get) ts \<and>
    m_cmd_set m = m_cmd_set m0 + over_tasks (counted is_set) ts \<and>
    m_cmd_delete m = m_cmd_delete m0 + over_tasks (counted is_delete) ts \<and>
    m_get_hits m = m_get_hits m0 + over_tasks (replied reply_hits) ts \<and>
    m_get_misses m = m_get_misses m0 + over_tasks (replied reply_misses) ts \<and>
    m_storage_errors m = m_storage_errors m0 + over_tasks (replied reply_errors) ts"
  by (intro conjI; rule tasks_counter [OF petracache_platform.task_step_counts(1) [OF assms(1)] _ assms(2)]
      tasks_counter [OF petracache_platform.task_step_counts(2) [OF assms(1)] _ assms(2)]
      tasks_counter [OF petracache_platform.task_step_counts(3) [OF assms(1)] _ assms(2)]
      tasks_counter [OF petracache_platform.task_step_counts(4) [OF assms(1)] _ assms(2)]
      tasks_counter [OF petracache_platform.task_step_counts(5) [OF assms(1)] _ assms(2)]
      tasks_counter [OF petracache_platform.task_step_counts(6) [OF assms(1)] _ assms(2)];
    simp add: counted_def replied_def)

theorem concurrent_counters_exact_witness:
  "m_cmd_get (fst (snd overlap_end)) = over_tasks (counted is_get) (snd (snd overlap_end)) \<and>
   m_get_misses (fst (snd overlap_end)) = over_tasks (replied reply_misses) (snd (snd overlap_end))"
proof -
  have "tasks_run (ref_platform (\<lambda>i. 60000000000)) ([one_entry [107] old_value], metrics_new, [])
      (fst overlap_end, fst (snd overlap_end), snd (snd overlap_end))"
    using overlap_end_run by simp
  from concurrent_counters_exact [OF ref.petracache_platform_axioms this] show ?thesis
    by (simp add: metrics_new_def)
qed

end
