(* ===== verification/Sessions.thy ===== *)
theory Sessions
  imports Streams
begin

text \<open>
  Sessions, that is, streams of well-formed commands: their frames are the commands, so what theory
  \<open>Streams\<close> shows of any input becomes a statement about the commands the client sent.
\<close>

section \<open>Command streams\<close>

text \<open>The bytes of a sequence of commands.\<close>

definition render_all :: "command list \<Rightarrow> bytes" where
  "render_all cmds = concat (map render cmds)"

lemma render_all_simps [simp]:
  "render_all [] = []" "render_all (cmd # cmds) = render cmd @ render_all cmds"
  "render_all (xs @ ys) = render_all xs @ render_all ys"
  by (simp_all add: render_all_def)

text \<open>A sequence of commands the server answers one after the other.\<close>

definition session :: "command list \<Rightarrow> bool" where
  "session cmds \<longleftrightarrow> list_all (\<lambda>cmd. command_wf cmd \<and> cmd \<noteq> Quit) cmds"

lemma session_simps [simp]:
  "session []" "session (cmd # cmds) \<longleftrightarrow> command_wf cmd \<and> cmd \<noteq> Quit \<and> session cmds"
  "session (xs @ ys) \<longleftrightarrow> session xs \<and> session ys"
  by (simp_all add: session_def)

context memchr_crate
begin

lemma next_frame_render:
  assumes "command_wf cmd" and "length (render cmd @ rest) \<le> isize_max"
  shows "next_frame mc (render cmd @ rest) = Some (Cmd cmd, length (render cmd))"
  using parse_render [OF assms] assms(2) by (simp add: next_frame_def unat_of_nat isize_max_def)

text \<open>The frames at the front of a command stream are its first commands.\<close>

lemma takes_render:
  assumes "takes mc buf fs rest" and "buf = render_all cmds" and "session cmds"
    and "length (render_all cmds) \<le> isize_max"
  shows "\<exists>dn todo. cmds = dn @ todo \<and> fs = map Cmd dn \<and> rest = render_all todo"
  using assms
proof (induction arbitrary: cmds rule: takes.induct)
  case (takes_Nil buf)
  then show ?case by (intro exI [of _ "[]"] exI [of _ cmds]) simp
next
  case (takes_Quit buf k)
  then show ?case
    using next_frame_render [of "hd cmds" "render_all (tl cmds)"]
    by (cases cmds) (auto simp: next_frame_def parse_def find_crlf_def memchr_first)
next
  case (takes_Cons buf f k fs rest)
  then obtain cmd cs where c: "cmds = cmd # cs"
    by (cases cmds) (auto simp: next_frame_def parse_def find_crlf_def memchr_first)
  then have fk: "f = Cmd cmd" "k = length (render cmd)"
    using takes_Cons.prems takes_Cons.hyps(1) next_frame_render [of cmd "render_all cs"] by auto
  from takes_Cons.IH [of cs] takes_Cons.prems c fk obtain dn todo where
    "cs = dn @ todo" "fs = map Cmd dn" "rest = render_all todo" by auto
  with c fk show ?case by (intro exI [of _ "cmd # dn"] exI [of _ todo]) simp
qed

lemma parse_session:
  assumes "session cmds" and "cmds \<noteq> []" and "length (render_all cmds) \<le> isize_max"
  shows "\<exists>cmd n. parse mc (render_all cmds) = Done (Complete cmd n)"
  using assms parse_render [of "hd cmds" "render_all (tl cmds)"] by (cases cmds) auto

end

lemma stream_trace_commands:
  "stream_trace clk i (map Cmd cmds) c rs c' i' \<Longrightarrow> cache_trace clk i cmds c rs c' i'"
proof (induction cmds arbitrary: i c rs)
  case (Cons cmd cmds)
  from Cons.prems show ?case
    by (auto elim!: stream_CmdE intro!: trace_Cons Cons.IH)
qed (auto elim: stream_NilE intro: trace_Nil)

lemma frames_sent_commands: "frames_sent (map Cmd cmds) rs = sent_replies cmds rs"
  by (simp add: frames_sent_def sent_replies_def zip_map1 comp_def case_prod_unfold cong: if_cong)

context petracache_conn
begin

text \<open>A session runs to its end, or to the command whose reply could not be written.\<close>

lemma session_any:
  assumes "concat chunks = render_all cmds" and "session cmds" and "[] \<notin> set chunks"
    and len: "length (render_all cmds) \<le> isize_max" and "entries_wf (srv_contents contents srv)"
  shows "\<exists>st srv' c' dn rs.
    handle P W (map (\<lambda>b. Read (Inr b) :: 're conn_event) chunks) srv stream =
      Some (Done (st, (srv', c'))) \<and>
    cache_trace (pf_clock P) (srv_clock srv) dn (srv_cache contents srv) rs
      (srv_cache contents srv') (srv_clock srv') \<and>
    run_frames P (map Cmd dn) (srv_storage srv) = (rs, srv_storage srv') \<and>
    (st = Waiting \<and> dn = cmds \<and> sent (cn_stream c') = sent stream @ sent_replies cmds rs \<and>
       cn_read_buf c' = [] \<or>
     (\<exists>e rest n. st = Errored e \<and> \<not> accepts_writes W \<and> cmds = dn @ rest \<and> dn \<noteq> [] \<and>
        \<not> is_noreply (last dn) \<and>
        sent (cn_stream c') = sent stream @ sent_replies (butlast dn) (butlast rs) @ take n (last rs)))"
proof -
  from stream_handled [of chunks srv stream] assms obtain out where
    h: "handle P W (map (\<lambda>b. Read (Inr b) :: 're conn_event) chunks) srv stream = Some out"
      "task_done (srv, conn_new srv stream) [] (render_all cmds) out" by auto
  note tk = takes_render [OF _ refl assms(2) len]
  from h(2) show ?thesis
  proof cases
    case (task_panic fs rest)
    from tk [OF task_panic(2)] obtain dn todo where "cmds = dn @ todo" "rest = render_all todo" by blast
    with task_panic(4) parse_session [of todo] parse_Nil assms(2) len show ?thesis by (cases "todo = []") auto
  next
    case (task_failed fs rest rs st' e)
    from tk [OF task_failed(2)] obtain dn todo where d: "cmds = dn @ todo" "fs = map Cmd dn" by blast
    obtain srv' c' where st': "st' = (srv', c')" by fastforce
    from task_failed(3) d h(1) task_failed(1) st' stream_trace_commands show ?thesis
      by (intro exI [of _ "Errored e"] exI [of _ srv'] exI [of _ c'] exI [of _ dn] exI [of _ rs])
        (auto simp: progress_def delivered_def conn_new_def last_map frames_sent_commands
          simp flip: map_butlast)
  next
    case (task_quit fs rest rs st')
    from tk [OF task_quit(2)] obtain dn todo where d: "cmds = dn @ todo" "fs = map Cmd dn" by blast
    with task_quit(4,5) have "Quit \<in> set dn" using last_in_set [of dn] by (simp add: last_map)
    then have "Quit \<in> set cmds" using d(1) by simp
    with assms(2) show ?thesis by (auto simp: session_def list_all_iff)
  next
    case (task_waiting fs st' rs)
    obtain srv' c' where st': "st' = (srv', c')" by fastforce
    from tk [OF task_waiting(2)] obtain dn todo where
      d: "cmds = dn @ todo" "fs = map Cmd dn" "cn_read_buf c' = render_all todo" using st' by auto
    have "parse (pf_memchr P) (render_all todo) = Done NeedMoreData"
      using task_waiting(5) d st' by (auto simp: idle_def last_map)
    with parse_session [of todo] d(1) assms(2) len have "todo = []" by auto
    with task_waiting(1,3) d h(1) st' stream_trace_commands show ?thesis
      by (intro exI [of _ Waiting] exI [of _ srv'] exI [of _ c'] exI [of _ dn] exI [of _ rs])
        (auto simp: progress_def delivered_def conn_new_def frames_sent_commands)
  qed
qed

text \<open>On a stream that takes every write the session runs to its end.\<close>

lemma session_pieces:
  assumes "accepts_writes W" and "concat chunks = render_all cmds" and "session cmds"
    and "[] \<notin> set chunks" and "length (render_all cmds) \<le> isize_max"
    and "entries_wf (srv_contents contents srv)"
  shows "\<exists>srv' c' rs.
    handle P W (map (\<lambda>b. Read (Inr b) :: 're conn_event) chunks) srv stream =
      Some (Done (Waiting, (srv', c'))) \<and>
    cache_trace (pf_clock P) (srv_clock srv) cmds (srv_cache contents srv) rs
      (srv_cache contents srv') (srv_clock srv') \<and>
    run_frames P (map Cmd cmds) (srv_storage srv) = (rs, srv_storage srv') \<and>
    sent (cn_stream c') = sent stream @ sent_replies cmds rs \<and> cn_read_buf c' = []"
  using session_any [OF assms(2-6), of stream] assms(1) by blast

end

section \<open>Storing and reading back\<close>

text \<open>The reading of the clock a \<open>set\<close> takes: one for a relative TTL, none otherwise.\<close>

lemma value_new_reads:
  "value_new clk f x d i =
     (with_expire_at f (deadline (reading clk i) x) d,
      if x \<noteq> 0 \<and> x \<le> MAX_RELATIVE_TTL then i + 1 else i)"
  by (simp add: value_new_def calculate_expire_at_def deadline_saturating with_expire_at_def
      current_timestamp_def Let_def)

text \<open>What a \<open>set\<close> answers and leaves behind, and a \<open>get\<close> of a stored key.\<close>

lemma exec_set:
  assumes "v = with_expire_at f (deadline (reading (pf_clock P) (st_clock s)) x) d"
    and "db_put_opt (pf_rocksdb P) (st_db s) k (encode v) (st_write_opts s) = (res, db)"
  shows "exec_reply P (Set k f x d nr) s =
    ((case res of
        Inl e \<Rightarrow> server_error_line (storage_error_to_string (pf_db_msg P) (RocksDb e))
      | Inr u \<Rightarrow> bs ''STORED'' @ crlf),
     s\<lparr>st_clock := (if x \<noteq> 0 \<and> x \<le> MAX_RELATIVE_TTL then st_clock s + 1 else st_clock s), st_db := db\<rparr>)"
  using assms
  by (simp add: exec_reply_def handle_set_def value_new_reads rocks_set_def Let_def
      server_error_line_def writer_stored_def extend_from_slice_def split: sum.split)

context petracache_conn
begin

lemma put_stored:
  "db_put_opt (pf_rocksdb P) d k b wo = (Inr u, d') \<Longrightarrow> contents d' k = Some b"
  using put_ok by simp

lemma exec_get_stored:
  assumes get: "db_get (pf_rocksdb P) (st_db s) k = (res, db)"
    and stored: "contents (st_db s) k = Some (encode v)"
  shows "fst (exec_reply P (Get [k]) s) =
    (case res of
       Inl e \<Rightarrow> server_error_line (storage_error_to_string (pf_db_msg P) (RocksDb e))
     | Inr b \<Rightarrow> reply_text (if expired_at (reading (pf_clock P) (st_clock s)) v then []
         else [(k, sv_flags v, sv_data v)]))"
proof (cases res)
  case (Inl e)
  with get show ?thesis
    by (simp add: exec_reply_def handle_get_def rocks_get_def Let_def server_error_line_def)
next
  case (Inr b)
  then have b: "b = Some (encode v)" using get_result get stored by simp
  obtain ex i where e: "is_expired (pf_clock P) v (st_clock s) = (ex, i)" by fastforce
  then have "ex = expired_at (reading (pf_clock P) (st_clock s)) v"
    using is_expired_fst [of "pf_clock P" v "st_clock s"] by simp
  with get Inr b e show ?thesis
    by (simp add: exec_reply_def handle_get_def rocks_get_def decode_encode Let_def split_def
        reply_text_Nil reply_text_Cons rw_buf_value writer_end_def extend_from_slice_def)
qed

end

section \<open>Connections that break\<close>

text \<open>
  C7: A connection that breaks: for any stream, whatever writes it refuses, a client's well-formed
  commands (without \<open>quit\<close>), delivered in any pieces, are answered until the end, or up to a command
  whose reply could not be written.  In the second case the task ends with the write error; exactly
  the commands up to that one have been executed, once each and in order, as steps of the abstract
  cache; and the client has received every earlier reply in full and a prefix of the last.  So a
  command whose reply never arrived may have taken effect, but only the last one executed.
\<close>

theorem broken_session:
  assumes "petracache_conn P contents W sent" and "concat chunks = render_all cmds"
    and "session cmds" and "[] \<notin> set chunks" and "length (render_all cmds) \<le> isize_max"
    and "entries_wf (contents (st_db (srv_storage srv)))"
  shows "\<exists>st srv' c' done_cmds rs.
    handle P W (map (\<lambda>b. Read (Inr b) :: 're conn_event) chunks) srv stream =
      Some (Done (st, (srv', c'))) \<and>
    cache_trace (pf_clock P) (srv_clock srv) done_cmds (stored_map (contents (st_db (srv_storage srv)))) rs
      (stored_map (contents (st_db (srv_storage srv')))) (srv_clock srv') \<and>
    (st = Waiting \<and> done_cmds = cmds \<and> sent (cn_stream c') = sent stream @ sent_replies cmds rs \<or>
     (\<exists>e rest cmd n. st = Errored e \<and> cmds = done_cmds @ rest \<and> done_cmds \<noteq> [] \<and>
        last done_cmds = cmd \<and> \<not> is_noreply cmd \<and>
        sent (cn_stream c') =
          sent stream @ sent_replies (butlast done_cmds) (butlast rs) @ take n (last rs)))"
  using petracache_conn.session_any [OF assms, where 're = 're, of stream] by blast

text \<open>Two deletes; the second reply cannot be written.\<close>

theorem broken_session_witness:
  "\<exists>st srv' c' done_cmds rs.
    handle (ref_platform (\<lambda>i. 0)) mem_stream
      [Read (Inr (render_all [Delete [97] False, Delete [98] False])) :: unit conn_event]
      (ref_server mem_empty) ([], [False, True]) = Some (Done (st, (srv', c'))) \<and>
    (st = Waiting \<and> fst (cn_stream c') = sent_replies [Delete [97] False, Delete [98] False] rs \<or>
     (\<exists>e n. st = Errored e \<and> done_cmds \<noteq> [] \<and>
        fst (cn_stream c') = sent_replies (butlast done_cmds) (butlast rs) @ take n (last rs)))"
proof -
  let ?cmds = "[Delete [97] False, Delete [98] False]"
  have wf: "entries_wf (fst (st_db (srv_storage (ref_server mem_empty))))"
    by (simp add: ref_server_def fresh_storage_def mem_empty_def entries_wf_def)
  have c: "concat [render_all ?cmds] = render_all ?cmds" by simp
  have s: "session ?cmds" and n: "[] \<notin> set [render_all ?cmds]"
    and l: "length (render_all ?cmds) \<le> isize_max"
    by (simp_all add: run_simps render_def noreply_word_def isize_max_def)
  from broken_session [OF ref_conn.petracache_conn_axioms c s n l wf, where 're = unit,
      of "\<lambda>i. 0" "([], [False, True])"]
  show ?thesis by (simp only: fst_conv append_Nil list.map) blast
qed

end
