(* ===== verification/Unit_Tests.thy ===== *)
theory Unit_Tests
  imports Startup
begin

text \<open>
  The unit tests of the repository, run on the model.  Each \<open>#[test]\<close> function of the source is a
  Boolean function: true when the test returns, false when an assertion, an \<open>unwrap\<close> or a \<open>panic!\<close>
  fails.  Third-party code and the clock are arguments, as in the theories under test, so that the
  theorems below say under which conditions on them the repository's own tests pass.
\<close>

section \<open>\<open>protocol/command.rs\<close>\<close>

definition test_is_valid_key :: bool where
  "test_is_valid_key \<longleftrightarrow>
     is_valid_key (bs ''valid_key'') \<and>
     is_valid_key (bs ''key-with-dashes'') \<and>
     is_valid_key (bs ''key:with:colons'') \<and>
     \<not> is_valid_key (bs '''') \<and>
     \<not> is_valid_key (bs ''key with space'') \<and>
     \<not> is_valid_key (bs ''key'' @ [9] @ bs ''with'' @ [9] @ bs ''tab'') \<and>
     \<not> is_valid_key (replicate 251 97)"

definition test_is_noreply :: bool where
  "test_is_noreply \<longleftrightarrow>
     (let cmd = Set (bs ''key'') 0 0 (bs ''data'') True in is_noreply cmd) \<and>
     (let cmd = Get [bs ''key''] in \<not> is_noreply cmd)"

section \<open>\<open>protocol/parser.rs\<close>\<close>

definition test_parse_get :: "memchr \<Rightarrow> bool" where
  "test_parse_get mc \<longleftrightarrow>
     (let buf = bs ''get foo bar baz'' @ crlf
      in case parse mc buf of
           Done (Complete (Get keys) consumed) \<Rightarrow>
             length keys = 3 \<and> keys ! 0 = bs ''foo'' \<and> keys ! 1 = bs ''bar'' \<and> keys ! 2 = bs ''baz'' \<and>
             unat consumed = length buf
         | _ \<Rightarrow> False)"

definition test_parse_set :: "memchr \<Rightarrow> bool" where
  "test_parse_set mc \<longleftrightarrow>
     (let buf = bs ''set mykey 42 3600 5'' @ crlf @ bs ''hello'' @ crlf
      in case parse mc buf of
           Done (Complete (Set key flags exptime data noreply) consumed) \<Rightarrow>
             key = bs ''mykey'' \<and> flags = 42 \<and> exptime = 3600 \<and> data = bs ''hello'' \<and> \<not> noreply \<and>
             unat consumed = length buf
         | _ \<Rightarrow> False)"

definition test_parse_set_noreply :: "memchr \<Rightarrow> bool" where
  "test_parse_set_noreply mc \<longleftrightarrow>
     (case parse mc (bs ''set mykey 0 0 3 noreply'' @ crlf @ bs ''foo'' @ crlf) of
        Done (Complete (Set key flags exptime data noreply) consumed) \<Rightarrow> noreply
      | _ \<Rightarrow> False)"

definition test_parse_delete :: "memchr \<Rightarrow> bool" where
  "test_parse_delete mc \<longleftrightarrow>
     (case parse mc (bs ''delete mykey'' @ crlf) of
        Done (Complete (Delete key noreply) consumed) \<Rightarrow> key = bs ''mykey'' \<and> \<not> noreply
      | _ \<Rightarrow> False)"

definition test_parse_delete_noreply :: "memchr \<Rightarrow> bool" where
  "test_parse_delete_noreply mc \<longleftrightarrow>
     (case parse mc (bs ''delete mykey noreply'' @ crlf) of
        Done (Complete (Delete key noreply) consumed) \<Rightarrow> noreply
      | _ \<Rightarrow> False)"

definition test_parse_delete_with_exptime :: "memchr \<Rightarrow> bool" where
  "test_parse_delete_with_exptime mc \<longleftrightarrow>
     (case parse mc (bs ''delete mykey 0'' @ crlf) of
        Done (Complete (Delete key noreply) consumed) \<Rightarrow> key = bs ''mykey'' \<and> \<not> noreply
      | _ \<Rightarrow> False) \<and>
     (case parse mc (bs ''delete mykey 300 noreply'' @ crlf) of
        Done (Complete (Delete key noreply) consumed) \<Rightarrow> key = bs ''mykey'' \<and> noreply
      | _ \<Rightarrow> False)"

definition test_parse_quit :: "memchr \<Rightarrow> bool" where
  "test_parse_quit mc \<longleftrightarrow>
     (case parse mc (bs ''quit'' @ crlf) of Done (Complete Quit consumed) \<Rightarrow> True | _ \<Rightarrow> False)"

definition test_parse_version :: "memchr \<Rightarrow> bool" where
  "test_parse_version mc \<longleftrightarrow>
     (let buf = bs ''version'' @ crlf
      in case parse mc buf of
           Done (Complete Version consumed) \<Rightarrow> unat consumed = length buf
         | _ \<Rightarrow> False) \<and>
     (case parse mc (bs ''VERSION'' @ crlf) of Done (Complete Version consumed) \<Rightarrow> True | _ \<Rightarrow> False)"

definition test_parse_need_more_data :: "memchr \<Rightarrow> bool" where
  "test_parse_need_more_data mc \<longleftrightarrow>
     (case parse mc (bs ''get foo'') of Done NeedMoreData \<Rightarrow> True | _ \<Rightarrow> False)"

definition test_parse_invalid_command :: "memchr \<Rightarrow> bool" where
  "test_parse_invalid_command mc \<longleftrightarrow>
     (case parse mc (bs ''invalid'' @ crlf) of Done (Error (InvalidCommand s)) \<Rightarrow> True | _ \<Rightarrow> False)"

definition test_parse_key_too_long :: "memchr \<Rightarrow> bool" where
  "test_parse_key_too_long mc \<longleftrightarrow>
     (let long_key = replicate 251 97; buf = bs ''get ''; buf = buf @ long_key; buf = buf @ crlf
      in case parse mc buf of Done (Error KeyTooLong) \<Rightarrow> True | _ \<Rightarrow> False)"

definition test_case_insensitive_commands :: "memchr \<Rightarrow> bool" where
  "test_case_insensitive_commands mc \<longleftrightarrow>
     (case parse mc (bs ''GET foo'' @ crlf) of Done (Complete (Get keys) consumed) \<Rightarrow> True | _ \<Rightarrow> False) \<and>
     (case parse mc (bs ''SET mykey 0 0 3'' @ crlf @ bs ''bar'' @ crlf) of
        Done (Complete (Set key flags exptime data noreply) consumed) \<Rightarrow> True
      | _ \<Rightarrow> False)"

section \<open>\<open>protocol/response.rs\<close>\<close>

definition test_value :: "itoa \<Rightarrow> bool" where
  "test_value it \<longleftrightarrow>
     (let writer = writer_new 256;
          writer = writer_value it (bs ''mykey'') 42 (bs ''hello'') writer
      in writer_buffer writer = bs ''VALUE mykey 42 5'' @ crlf @ bs ''hello'' @ crlf)"

definition test_get_response :: "itoa \<Rightarrow> bool" where
  "test_get_response it \<longleftrightarrow>
     (let writer = writer_new 256;
          writer = writer_value it (bs ''key1'') 0 (bs ''value1'') writer;
          writer = writer_value it (bs ''key2'') 1 (bs ''value2'') writer;
          writer = writer_end writer
      in writer_buffer writer =
           bs ''VALUE key1 0 6'' @ crlf @ bs ''value1'' @ crlf @
           bs ''VALUE key2 1 6'' @ crlf @ bs ''value2'' @ crlf @ bs ''END'' @ crlf)"

definition test_simple_responses :: bool where
  "test_simple_responses \<longleftrightarrow>
     (let writer = writer_new 256;
          (a, writer) = writer_take (writer_stored writer);
          (b, writer) = writer_take (writer_deleted writer);
          (c, writer) = writer_take (writer_not_found writer)
      in a = bs ''STORED'' @ crlf \<and> b = bs ''DELETED'' @ crlf \<and> c = bs ''NOT_FOUND'' @ crlf)"

definition test_errors :: bool where
  "test_errors \<longleftrightarrow>
     (let writer = writer_new 256;
          (a, writer) = writer_take (writer_client_error (bs ''bad command line format'') writer);
          (b, writer) = writer_take (writer_server_error (bs ''out of memory'') writer)
      in a = bs ''CLIENT_ERROR bad command line format'' @ crlf \<and>
         b = bs ''SERVER_ERROR out of memory'' @ crlf)"

definition test_version :: bool where
  "test_version \<longleftrightarrow>
     (let writer = writer_new 256;
          writer = writer_version (bs ''rocksproxy 0.1.0'') writer
      in writer_buffer writer = bs ''VERSION rocksproxy 0.1.0'' @ crlf)"

section \<open>\<open>storage/value.rs\<close>\<close>

definition test_encode_decode :: bool where
  "test_encode_decode \<longleftrightarrow>
     (let val = with_expire_at 42 1234567890 (bs ''hello''); encoded = encode val
      in case (decode encoded :: unit storage_error + stored_value) of
           Inl e \<Rightarrow> False
         | Inr decoded \<Rightarrow>
             sv_expire_at decoded = 1234567890 \<and> sv_flags decoded = 42 \<and> sv_data decoded = bs ''hello'')"

definition test_never_expire :: "clock \<Rightarrow> bool" where
  "test_never_expire clk \<longleftrightarrow>
     (let (val, i) = value_new clk 0 0 (bs ''data'') 0; (expired, i) = is_expired clk val i
      in sv_expire_at val = 0 \<and> \<not> expired)"

definition test_relative_ttl :: "clock \<Rightarrow> bool" where
  "test_relative_ttl clk \<longleftrightarrow>
     (let (now, i) = current_timestamp clk 0; (val, i) = value_new clk 0 60 (bs ''data'') i
      in now + 59 \<le> sv_expire_at val \<and> sv_expire_at val \<le> now + 61)"

definition test_absolute_timestamp :: "clock \<Rightarrow> bool" where
  "test_absolute_timestamp clk \<longleftrightarrow>
     (let (now, i) = current_timestamp clk 0; future = now + 3000000;
          (val, i) = value_new clk 0 future (bs ''data'') i
      in sv_expire_at val = future)"

definition test_expired :: "clock \<Rightarrow> bool" where
  "test_expired clk \<longleftrightarrow> fst (is_expired clk (with_expire_at 0 1 (bs ''data'')) 0)"

definition test_numeric_value :: bool where
  "test_numeric_value \<longleftrightarrow>
     (let val = with_expire_at 0 0 (bs ''123'')
      in (as_u64 val :: unit storage_error + u64) = Inr 123 \<and>
         (let val = set_numeric 456 val
          in sv_data val = bs ''456'' \<and> (as_u64 val :: unit storage_error + u64) = Inr 456))"

definition test_invalid_numeric :: bool where
  "test_invalid_numeric \<longleftrightarrow>
     (case (as_u64 (with_expire_at 0 0 (bs ''hello'')) :: unit storage_error + u64) of
        Inl e \<Rightarrow> True | Inr n \<Rightarrow> False)"

definition test_decode_too_short :: bool where
  "test_decode_too_short \<longleftrightarrow>
     (case (decode [0, 1, 2] :: unit storage_error + stored_value) of Inl e \<Rightarrow> True | Inr v \<Rightarrow> False)"

section \<open>\<open>storage/rocks.rs\<close>\<close>

text \<open>The path of the temporary directory is an argument.\<close>

definition test_config :: "str \<Rightarrow> storage_config" where
  "test_config path =
     \<lparr>cf_db_path = path @ bs ''/test_db'', cf_block_cache_size = 8 * 1024 * 1024,
      cf_write_buffer_size = 4 * 1024 * 1024, cf_max_write_buffer_number = 2,
      cf_target_file_size_base = 4 * 1024 * 1024, cf_max_background_jobs = 2,
      cf_enable_compression = False, cf_enable_ttl_compaction = False,
      cf_rocksdb_log_level = bs ''error'', cf_rocksdb_max_log_file_size = 10 * 1024 * 1024,
      cf_rocksdb_keep_log_file_num = 5\<rparr>"

text \<open>What the storage tests meet: the database, the opening of it in the directory, and the clock.\<close>

record ('db, 'e) test_env =
  te_rocksdb :: "('db, 'e) rocksdb_crate"
  te_create_parent :: "str \<Rightarrow> (unit + unit) option"
  te_db_open :: "db_options \<Rightarrow> str \<Rightarrow> 'e + 'db"
  te_tmp_dir :: str
  te_clock :: clock

definition test_open :: "('db, 'e) test_env \<Rightarrow> 'e storage_error + 'db storage" where
  "test_open E = storage_open (te_create_parent E) (\<lambda>e. []) (te_db_open E) (test_config (te_tmp_dir E))"

definition test_set_get :: "('db, 'e) test_env \<Rightarrow> bool" where
  "test_set_get E \<longleftrightarrow>
     (case test_open E of
        Inl e \<Rightarrow> False
      | Inr storage \<Rightarrow>
     (let (val, i) = value_new (te_clock E) 42 0 (bs ''hello'') (st_clock storage);
          (stored, storage) = rocks_set (te_rocksdb E) (bs ''test_key'') val (storage\<lparr>st_clock := i\<rparr>)
      in (case stored of
            Inl e \<Rightarrow> False
          | Inr u \<Rightarrow>
         (case fst (rocks_get (te_rocksdb E) (te_clock E) (bs ''test_key'') storage) of
            Inr (Some v) \<Rightarrow> sv_flags v = 42 \<and> sv_data v = bs ''hello''
          | _ \<Rightarrow> False))))"

definition test_get_nonexistent :: "('db, 'e) test_env \<Rightarrow> bool" where
  "test_get_nonexistent E \<longleftrightarrow>
     (case test_open E of
        Inl e \<Rightarrow> False
      | Inr storage \<Rightarrow>
          fst (rocks_get (te_rocksdb E) (te_clock E) (bs ''nonexistent'') storage) = Inr None)"

definition test_delete :: "('db, 'e) test_env \<Rightarrow> bool" where
  "test_delete E \<longleftrightarrow>
     (case test_open E of
        Inl e \<Rightarrow> False
      | Inr storage \<Rightarrow>
     (let (absent, storage) = rocks_delete (te_rocksdb E) (bs ''nonexistent'') storage;
          (val, i) = value_new (te_clock E) 0 0 (bs ''data'') (st_clock storage);
          (stored, storage) = rocks_set (te_rocksdb E) (bs ''key'') val (storage\<lparr>st_clock := i\<rparr>);
          (existed, storage) = rocks_delete (te_rocksdb E) (bs ''key'') storage;
          (found, storage) = rocks_get (te_rocksdb E) (te_clock E) (bs ''key'') storage
      in absent = Inr False \<and> stored = Inr () \<and> existed = Inr True \<and> found = Inr None))"

definition filter_decision :: "clock \<Rightarrow> bytes \<Rightarrow> compaction_decision" where
  "filter_decision clk val = fst (ttl_compaction_filter clk 0 (bs ''key'') val (0, 0))"

definition test_compaction_filter_expired_key :: "clock \<Rightarrow> bool" where
  "test_compaction_filter_expired_key clk \<longleftrightarrow>
     filter_decision clk (encode (with_expire_at 0 1 (bs ''old''))) = Remove"

definition test_compaction_filter_valid_key :: "clock \<Rightarrow> bool" where
  "test_compaction_filter_valid_key clk \<longleftrightarrow>
     filter_decision clk (encode (with_expire_at 0 (- 1) (bs ''fresh''))) = Keep"

definition test_compaction_filter_never_expire :: "clock \<Rightarrow> bool" where
  "test_compaction_filter_never_expire clk \<longleftrightarrow>
     filter_decision clk (encode (with_expire_at 0 0 (bs ''permanent''))) = Keep"

definition test_compaction_filter_short_value :: "clock \<Rightarrow> bool" where
  "test_compaction_filter_short_value clk \<longleftrightarrow> filter_decision clk [0, 1, 2] = Keep"

section \<open>\<open>metrics.rs\<close> and \<open>health.rs\<close>\<close>

text \<open>
  The crate and its encoder are arguments, and so are the two counters of the storage, which are
  static variables other tests change.
\<close>

definition test_metrics_creation ::
    "('c, 'reg, 'p) prometheus_crate \<Rightarrow> (metrics \<Rightarrow> 'x + bytes) \<Rightarrow> 'db storage \<Rightarrow> bool" where
  "test_metrics_creation X enc s \<longleftrightarrow>
     (case metrics_create X of
        Panic \<Rightarrow> False
      | Done created \<Rightarrow>
     (let m = inc_cmd_get metrics_new;
          m = inc_cmd_set m;
          m = inc_hits m;
          m = m\<lparr>m_active_connections := 5\<rparr>
      in (case gather enc m s of
            Panic \<Rightarrow> False
          | Done output \<Rightarrow>
              str_contains (bs ''petracache_cmd_get_total'') output \<and>
              str_contains (bs ''petracache_active_connections'') output)))"

definition test_atomic_counters :: bool where
  "test_atomic_counters \<longleftrightarrow>
     (let counters = atomic_counters_new;
          counters = ac_inc_cmd_get counters;
          counters = ac_inc_cmd_get counters;
          counters = ac_inc_get_hits counters
      in ac_cmd_get counters = 2 \<and> ac_get_hits counters = 1)"

definition test_ready_state :: bool where
  "test_ready_state \<longleftrightarrow>
     (let server0 = health_new; server1 = set_ready True server0; server2 = set_ready False server1
      in \<not> is_ready server0 \<and> is_ready server1 \<and> \<not> is_ready server2)"

section \<open>The protocol tests\<close>

lemma command_tests: "test_is_valid_key \<and> test_is_noreply"
  by (simp add: test_is_valid_key_def test_is_noreply_def is_valid_key_def MAX_KEY_LENGTH_def bs_def)

context memchr_crate
begin

lemmas parse_run = run_simps memchr_first

lemma parser_get_tests:
  "test_parse_get mc" "test_parse_need_more_data mc" "test_parse_invalid_command mc"
  "test_parse_quit mc" "test_parse_version mc"
  by (simp_all add: parse_run test_parse_get_def test_parse_need_more_data_def
      test_parse_invalid_command_def test_parse_quit_def test_parse_version_def)

lemma parser_set_tests:
  "test_parse_set mc" "test_parse_set_noreply mc" "test_case_insensitive_commands mc"
  by (simp_all add: parse_run test_parse_set_def test_parse_set_noreply_def
      test_case_insensitive_commands_def)

lemma parser_delete_tests:
  "test_parse_delete mc" "test_parse_delete_noreply mc" "test_parse_delete_with_exptime mc"
  by (simp_all add: parse_run test_parse_delete_def test_parse_delete_noreply_def
      test_parse_delete_with_exptime_def)

lemma parser_long_key_test: "test_parse_key_too_long mc"
proof -
  let ?line = "bs ''get'' @ SP # replicate 251 97" and ?long = "replicate 251 (97 :: u8)"
  have "CR \<notin> set ?line" by (simp add: bs_def)
  from find_crlf_line [OF this, of "[]"] have f: "find_crlf mc (?line @ crlf) = Some (length ?line)" .
  have sp: "SP \<notin> set ?long" by simp
  have "get_keys [?long] [] = Inl KeyTooLong" by (simp add: is_valid_key_def MAX_KEY_LENGTH_def)
  then have "parse mc (?line @ crlf) = Done (Error KeyTooLong)"
    unfolding parse_def f
    by (simp add: split_on_no_sep [OF sp] next_part_def parse_get_def cmd_eq_def to_ascii_lowercase_def
        bs_def del: get_keys.simps)
  moreover have "(bs ''get '' @ ?long) @ crlf = ?line @ crlf" by (simp add: bs_def)
  ultimately show ?thesis by (simp only: test_parse_key_too_long_def Let_def) simp
qed

end

lemma response_tests:
  assumes "itoa_crate it"
  shows "test_value it \<and> test_get_response it \<and> test_simple_responses \<and> test_errors \<and> test_version"
  by (simp add: run_simps itoa_crate.itoa_decimal [OF assms] test_value_def test_get_response_def
      test_simple_responses_def test_errors_def test_version_def)

section \<open>The storage tests\<close>

text \<open>A clock set after 1970 that moves on by at most a second between two readings.\<close>

definition steady_clock :: "clock \<Rightarrow> bool" where
  "steady_clock clk \<longleftrightarrow>
     (\<forall>i. 1 \<le> unat (reading clk i) \<and> unat (reading clk i) < 2 ^ 63 \<and>
       unat (reading clk i) \<le> unat (reading clk (Suc i)) \<and>
       unat (reading clk (Suc i)) \<le> unat (reading clk i) + 1)"

text \<open>A database on which no call fails.\<close>

definition fault_free :: "('db, 'e) rocksdb_crate \<Rightarrow> bool" where
  "fault_free R \<longleftrightarrow>
     (\<forall>d k. \<exists>r. fst (db_get R d k) = Inr r) \<and> (\<forall>d k v wo. fst (db_put_opt R d k v wo) = Inr ()) \<and>
     (\<forall>d k wo. fst (db_delete_opt R d k wo) = Inr ())"

text \<open>A temporary directory in which an empty database can be opened.\<close>

definition empty_dir :: "('db \<Rightarrow> bytes \<Rightarrow> bytes option) \<Rightarrow> ('db, 'e) test_env \<Rightarrow> bool" where
  "empty_dir contents E \<longleftrightarrow>
     (\<forall>p. te_create_parent E p = Some (Inr ())) \<and>
     (\<exists>d. te_db_open E (db_options_of (test_config (te_tmp_dir E))) (cf_db_path (test_config (te_tmp_dir E))) = Inr d \<and>
       contents d = Map.empty)"

lemma current_timestamp_readings: "\<exists>r. \<forall>i. current_timestamp clk i = (r i, Suc i)"
  by (rule exI [of _ "\<lambda>i. reading clk i"]) (simp add: current_timestamp_def)

lemma value_clock_tests:
  assumes "steady_clock clk"
  shows "test_never_expire clk" "test_relative_ttl clk" "test_absolute_timestamp clk" "test_expired clk"
proof -
  obtain r where "\<forall>i. current_timestamp clk i = (r i, Suc i)"
    using current_timestamp_readings by blast
  then have r: "current_timestamp clk i = (r i, Suc i)" for i by blast
  let ?t = "r 0" and ?t' = "r (Suc 0)"
  have t: "1 \<le> unat ?t" "unat ?t < 2 ^ 63" "unat ?t \<le> unat ?t'" "unat ?t' \<le> unat ?t + 1"
    using assms unfolding steady_clock_def r fst_conv by blast+
  show "test_never_expire clk"
    by (simp add: test_never_expire_def value_new_def calculate_expire_at_def is_expired_def)
  show "test_expired clk"
    using t(1) by (simp add: test_expired_def is_expired_def with_expire_at_def r word_le_nat_alt)
  have sum: "unat (?t + n) = unat ?t + unat n" if "unat n < 2 ^ 62" for n
  proof -
    have "unat ?t + unat n < 2 ^ 64" using t(2) that by simp
    then show ?thesis by (simp add: unat_word_ariths)
  qed
  have "unat (saturating_add ?t' 60) = unat ?t' + 60"
    using t by (simp add: unat_saturating_add)
  moreover have "unat (?t + 59) = unat ?t + 59" "unat (?t + 61) = unat ?t + 61"
    using sum [of 59] sum [of 61] by simp_all
  ultimately have "?t + 59 \<le> saturating_add ?t' 60 \<and> saturating_add ?t' 60 \<le> ?t + 61"
    using t(3,4) by (simp add: word_le_nat_alt)
  then show "test_relative_ttl clk"
    by (simp add: test_relative_ttl_def value_new_def calculate_expire_at_def r
        MAX_RELATIVE_TTL_def)
  have "unat (?t + 3000000) = unat ?t + 3000000" using sum [of 3000000] by simp
  then have "\<not> ?t + 3000000 \<le> MAX_RELATIVE_TTL" "?t + 3000000 \<noteq> 0"
    by (simp_all only: word_le_nat_alt MAX_RELATIVE_TTL_def) auto
  then show "test_absolute_timestamp clk"
    by (simp add: test_absolute_timestamp_def value_new_def calculate_expire_at_def r)
qed

lemma value_format_tests:
  "test_encode_decode" "test_numeric_value" "test_invalid_numeric" "test_decode_too_short"
proof -
  show test_encode_decode by (simp add: test_encode_decode_def decode_encode with_expire_at_def)
  show test_numeric_value
    by (simp add: test_numeric_value_def as_u64_set_numeric with_expire_at_def) (simp add: run_simps)
  show test_invalid_numeric by (simp add: test_invalid_numeric_def run_simps)
  show test_decode_too_short by (simp add: test_decode_too_short_def decode_def)
qed

lemma filter_tests:
  assumes "steady_clock clk"
  shows "test_compaction_filter_expired_key clk" "test_compaction_filter_valid_key clk"
    "test_compaction_filter_never_expire clk" "test_compaction_filter_short_value clk"
proof -
  obtain r where "\<forall>i. current_timestamp clk i = (r i, Suc i)"
    using current_timestamp_readings by blast
  then have r: "current_timestamp clk i = (r i, Suc i)" for i by blast
  have t: "1 \<le> unat (r 0)" "unat (r 0) < 2 ^ 63"
    using assms unfolding steady_clock_def r fst_conv by blast+
  then have "\<not> (- 1 :: u64) \<le> r 0" by (auto simp: word_le_nat_alt unsigned_minus_1_eq_mask mask_eq_exp_minus_1)
  with t show "test_compaction_filter_expired_key clk" "test_compaction_filter_valid_key clk"
    "test_compaction_filter_never_expire clk" "test_compaction_filter_short_value clk"
    by (auto simp: test_compaction_filter_expired_key_def test_compaction_filter_valid_key_def
        test_compaction_filter_never_expire_def test_compaction_filter_short_value_def filter_decision_def
        ttl_compaction_filter_def encode_length take_encode try_into_array_def u64_from_to
        with_expire_at_def r le64.enc_width word_le_nat_alt)
qed


context rocks_storage
begin

lemma calm_set: "fault_free R \<Longrightarrow> \<exists>s'. rocks_set R k v s = (Inr (), s')"
  by (auto simp: fault_free_def rocks_set_def Let_def split: prod.split sum.split)
    (metis fst_conv Inl_Inr_False)

lemma calm_delete: "fault_free R \<Longrightarrow> \<exists>b s'. rocks_delete R k s = (Inr b, s')"
  by (auto simp: fault_free_def rocks_delete_def Let_def split: prod.split sum.split)
    (metis fst_conv Inl_Inr_False)+

lemma calm_get:
  assumes "fault_free R" and "contents (st_db s) k = map_option encode ov"
    and "\<And>v. ov = Some v \<Longrightarrow> sv_expire_at v = 0"
  shows "fst (rocks_get R clk k s) = Inr ov"
proof -
  obtain r d where g: "db_get R (st_db s) k = (Inr r, d)"
    using assms(1) unfolding fault_free_def by (metis prod.collapse)
  with get_result have "r = map_option encode ov" using assms(2) by simp
  with g assms(3) show ?thesis
    by (cases ov) (simp_all add: rocks_get_def decode_encode is_expired_def)
qed

end

lemma storage_tests:
  assumes "rocksdb (te_rocksdb E) contents" and ff: "fault_free (te_rocksdb E)" and "empty_dir contents E"
  shows "test_set_get E" "test_get_nonexistent E" "test_delete E"
proof -
  let ?R = "te_rocksdb E" and ?clk = "te_clock E"
  note rs = rocks_storage_of [OF assms(1)]
  obtain s where op: "test_open E = Inr s" and s: "contents (st_db s) = Map.empty"
    using assms(3) by (auto simp: empty_dir_def test_open_def storage_open_def)
  have nw: "value_new ?clk f 0 d i = (\<lparr>sv_expire_at = 0, sv_flags = f, sv_data = d\<rparr>, i)" for f d i
    by (simp add: value_new_def calculate_expire_at_def)
  show "test_get_nonexistent E"
    using rocks_storage.calm_get [OF rs ff, of s _ None] s op by (simp add: test_get_nonexistent_def)
  obtain s1 where s1: "rocks_set ?R (bs ''test_key'') \<lparr>sv_expire_at = 0, sv_flags = 42, sv_data = bs ''hello''\<rparr>
      (s\<lparr>st_clock := st_clock s\<rparr>) = (Inr (), s1)"
    using rocks_storage.calm_set [OF rs ff] by blast
  have "fst (rocks_get ?R ?clk (bs ''test_key'') s1) =
      Inr (Some \<lparr>sv_expire_at = 0, sv_flags = 42, sv_data = bs ''hello''\<rparr>)"
    using rocks_storage.rocks_set_ok [OF rs s1] by (intro rocks_storage.calm_get [OF rs ff]) auto
  with s1 op show "test_set_get E" by (simp add: test_set_get_def nw)
  obtain b s2 where s2: "rocks_delete ?R (bs ''nonexistent'') s = (Inr b, s2)"
    using rocks_storage.calm_delete [OF rs ff] by blast
  obtain s3 where s3: "rocks_set ?R (bs ''key'') \<lparr>sv_expire_at = 0, sv_flags = 0, sv_data = bs ''data''\<rparr>
      (s2\<lparr>st_clock := st_clock s2\<rparr>) = (Inr (), s3)"
    using rocks_storage.calm_set [OF rs ff] by blast
  obtain b' s4 where s4: "rocks_delete ?R (bs ''key'') s3 = (Inr b', s4)"
    using rocks_storage.calm_delete [OF rs ff] by blast
  note d2 = rocks_storage.rocks_delete_ok [OF rs s2] and d4 = rocks_storage.rocks_delete_ok [OF rs s4]
  have "fst (rocks_get ?R ?clk (bs ''key'') s4) = Inr None"
    using rocks_storage.calm_get [OF rs ff, of s4 _ None] d4 by simp
  then obtain s5 where "rocks_get ?R ?clk (bs ''key'') s4 = (Inr None, s5)" by (metis prod.collapse)
  with s2 s3 s4 d2 d4 s op rocks_storage.rocks_set_ok [OF rs s3] show "test_delete E"
    by (simp add: test_delete_def nw)
qed

section \<open>The metrics test\<close>

lemma metric_sample_contains:
  assumes "metric_sample n out = Some v"
  shows "str_contains n out"
proof -
  obtain l where "l \<in> set (split_on LF out)" "take (length n + 1) l = n @ [SP]"
    using assms by (auto simp: metric_sample_def sample_lines_def Let_def filter_empty_conv split: if_splits)
  then obtain a b where out: "out = a @ l @ b" and l: "take (length n + 1) l = n @ [SP]"
    using split_on_infix by metis
  have "l = (n @ [SP]) @ drop (length n + 1) l" unfolding l [symmetric] by (simp only: append_take_drop_id)
  then have "take (length n) (l @ b) = n" by (metis append_assoc append_eq_conv_conj)
  then show ?thesis unfolding out by (intro str_contains_append str_contains_take)
qed

lemma metrics_test:
  assumes "prometheus X name_of registered" and "text_encoder enc"
  shows "test_metrics_creation X enc s"
proof -
  let ?m = "(inc_hits (inc_cmd_set (inc_cmd_get metrics_new)))\<lparr>m_active_connections := 5\<rparr>"
  obtain reg cs where "metrics_create X = Done (reg, cs)" using prometheus.create_succeeds [OF assms(1)] by blast
  moreover obtain out where g: "gather enc ?m s = Done out" using text_encoder.gathers [OF assms(2)] by blast
  moreover have "metric_sample (bs ''petracache_cmd_get_total'') out = Some (of_nat (m_cmd_get ?m))"
    by (rule text_encoder.counter_sample [OF assms(2) g])
      (simp_all add: exported_counters_def inc_cmd_get_def inc_cmd_set_def inc_hits_def metrics_new_def)
  moreover have "metric_sample gauge_name out = Some (of_int (m_active_connections ?m))"
    by (rule text_encoder.gauge_sample [OF assms(2) g]) simp_all
  ultimately show ?thesis
    by (auto simp: test_metrics_creation_def gauge_name_def Let_def dest!: metric_sample_contains)
qed

section \<open>A calm reference database\<close>

definition map_rocksdb :: "(bytes \<Rightarrow> bytes option, str) rocksdb_crate" where
  "map_rocksdb =
     \<lparr>db_get = (\<lambda>d k. (Inr (d k), d)), db_multi_get = (\<lambda>d ks. (map (\<lambda>k. Inr (d k)) ks, d)),
      db_put_opt = (\<lambda>d k v wo. (Inr (), d(k \<mapsto> v))), db_delete_opt = (\<lambda>d k wo. (Inr (), d(k := None))),
      db_property_int_value = (\<lambda>d p. Inr None), db_compaction = (\<lambda>d. []), db_drop = (\<lambda>d dropped. d)\<rparr>"

interpretation calm: rocksdb map_rocksdb id
  by unfold_locales (auto simp: map_rocksdb_def)

definition ref_test_env :: "(bytes \<Rightarrow> bytes option, str) test_env" where
  "ref_test_env =
     \<lparr>te_rocksdb = map_rocksdb, te_create_parent = (\<lambda>p. Some (Inr ())), te_db_open = (\<lambda>opts p. Inr Map.empty),
      te_tmp_dir = bs ''/tmp/x'', te_clock = (\<lambda>i. 60000000000)\<rparr>"

section \<open>Properties\<close>

text \<open>
  The model passes the repository's tests of the protocol: for every byte search and number
  formatter that meet their contracts, each unit test of \<open>protocol/command.rs\<close>,
  \<open>protocol/parser.rs\<close> and \<open>protocol/response.rs\<close> succeeds.
\<close>

theorem protocol_unit_tests_pass:
  assumes "memchr_crate mc" and "itoa_crate it"
  shows "test_is_valid_key \<and> test_is_noreply \<and> test_parse_get mc \<and> test_parse_set mc \<and>
    test_parse_set_noreply mc \<and> test_parse_delete mc \<and> test_parse_delete_noreply mc \<and>
    test_parse_delete_with_exptime mc \<and> test_parse_quit mc \<and> test_parse_version mc \<and>
    test_parse_need_more_data mc \<and> test_parse_invalid_command mc \<and> test_parse_key_too_long mc \<and>
    test_case_insensitive_commands mc \<and> test_value it \<and> test_get_response it \<and>
    test_simple_responses \<and> test_errors \<and> test_version"
  using command_tests response_tests [OF assms(2)] memchr_crate.parser_get_tests [OF assms(1)]
    memchr_crate.parser_set_tests [OF assms(1)] memchr_crate.parser_delete_tests [OF assms(1)]
    memchr_crate.parser_long_key_test [OF assms(1)] by (intro conjI; simp only:)

theorem protocol_unit_tests_pass_witness: "test_parse_set memchr_loop \<and> test_get_response to_decimal"
  using protocol_unit_tests_pass [OF loop.memchr_crate_axioms std_itoa.itoa_crate_axioms] by blast

text \<open>
  The model passes the repository's tests of the storage, the counters and the health flags: on an
  empty database that meets its contract and does not fail, with a clock set after 1970 that moves by
  at most a second between two readings, each unit test of \<open>storage/value.rs\<close> and
  \<open>storage/rocks.rs\<close> succeeds; and so do those of \<open>metrics.rs\<close>, with a Prometheus crate that meets
  its contracts, and that of \<open>health.rs\<close>.
\<close>

theorem storage_unit_tests_pass:
  assumes "rocksdb (te_rocksdb E) contents" and "fault_free (te_rocksdb E)" and "empty_dir contents E"
    and "steady_clock (te_clock E)" and "prometheus X name_of registered" and "text_encoder enc"
  shows "test_encode_decode \<and> test_never_expire (te_clock E) \<and> test_relative_ttl (te_clock E) \<and>
    test_absolute_timestamp (te_clock E) \<and> test_expired (te_clock E) \<and> test_numeric_value \<and>
    test_invalid_numeric \<and> test_decode_too_short \<and> test_set_get E \<and> test_get_nonexistent E \<and>
    test_delete E \<and> test_compaction_filter_expired_key (te_clock E) \<and>
    test_compaction_filter_valid_key (te_clock E) \<and> test_compaction_filter_never_expire (te_clock E) \<and>
    test_compaction_filter_short_value (te_clock E) \<and> test_metrics_creation X enc s \<and>
    test_atomic_counters \<and> test_ready_state"
  using value_format_tests value_clock_tests [OF assms(4)] filter_tests [OF assms(4)]
    storage_tests [OF assms(1-3)] metrics_test [OF assms(5,6)]
  by (simp add: test_atomic_counters_def atomic_defs test_ready_state_def set_ready_def is_ready_def
      health_new_def)

theorem storage_unit_tests_pass_witness: "test_set_get ref_test_env \<and> test_relative_ttl (\<lambda>i. 60000000000) \<and>
   test_metrics_creation names_registry plain_encoder (fresh_storage mem_empty)"
proof -
  have "rocksdb (te_rocksdb ref_test_env) id" using calm.rocksdb_axioms by (simp add: ref_test_env_def)
  moreover have "fault_free (te_rocksdb ref_test_env)" "empty_dir id ref_test_env"
    by (simp_all add: fault_free_def empty_dir_def ref_test_env_def map_rocksdb_def)
  moreover have "steady_clock (te_clock ref_test_env)"
    by (simp add: steady_clock_def ref_test_env_def run_simps)
  ultimately have "test_set_get ref_test_env \<and> test_relative_ttl (te_clock ref_test_env) \<and>
      test_metrics_creation names_registry plain_encoder (fresh_storage mem_empty)"
    using storage_unit_tests_pass [OF _ _ _ _ names.prometheus_axioms plain.text_encoder_axioms] by blast
  then show ?thesis by (simp add: ref_test_env_def)
qed

end
