(* ===== verification/Spec2Isabelle.thy ===== *)
theory Spec2Isabelle
  imports Process Interleaved Sessions Unit_Tests
begin

text \<open>
  \<^bold>\<open>PetraCache\<close> is a memcached-compatible cache server written in Rust over RocksDB.  This
  development models its source (\<open>src/src/*.rs\<close>) and proves what makes it correct.

  \<^bold>\<open>The program.\<close>  \<open>main.rs\<close> loads the configuration (\<open>config.rs\<close>), opens the storage
  (\<open>storage/rocks.rs\<close>), starts the health server (\<open>health.rs\<close>) and runs the TCP server
  (\<open>server/mod.rs\<close>).  The server admits connections under a semaphore and gives each a task
  (\<open>server/connection.rs\<close>) that reads bytes, parses commands (\<open>protocol/parser.rs\<close>,
  \<open>protocol/command.rs\<close>), lets the handlers (\<open>server/handler.rs\<close>) execute them against the storage and
  writes the replies (\<open>protocol/response.rs\<close>).  Values are stored with a deadline and flags
  (\<open>storage/value.rs\<close>); expired ones are removed by lookups and by a compaction filter.  Counters are
  kept in \<open>metrics.rs\<close>, errors in \<open>error.rs\<close>.

  \<^bold>\<open>The theories,\<close> in the order of their imports:
  \<^item> \<open>Prelude\<close>: machine types, the outcome type that makes a panic a value, the locales \<open>codec\<close> and
    \<open>fixed_codec\<close>, shared list and word facts, the simplification rules \<open>run_simps\<close> that evaluate the
    model on closed inputs.
  \<^item> \<open>Rust_Std\<close>: what the source uses of the standard library: slices, UTF-8, decimal numbers,
    little-endian bytes, white space, saturating addition, the clock.
  \<^item> \<open>Errors\<close> (\<open>error.rs\<close>), \<open>Command\<close> (\<open>protocol/command.rs\<close>), \<open>Parser\<close> (\<open>protocol/parser.rs\<close>),
    \<open>Response\<close> (\<open>protocol/response.rs\<close>), \<open>Value\<close> (\<open>storage/value.rs\<close>), \<open>Rocks\<close> (\<open>storage/rocks.rs\<close>),
    \<open>Config\<close> (\<open>config.rs\<close>), \<open>Metrics\<close> (\<open>metrics.rs\<close>): one definition per function, in the order of
    the source, under the source's names (a prefix avoids clashes: \<open>rocks_get\<close>, \<open>writer_value\<close>).
  \<^item> \<open>Cache\<close>: the specification, an abstract cache with one step per command (\<open>cache_step\<close>,
    \<open>cache_trace\<close>).
  \<^item> \<open>Handler\<close> (\<open>server/handler.rs\<close>), \<open>Connection\<close> (\<open>server/connection.rs\<close>), \<open>Server\<close>
    (\<open>server/mod.rs\<close> and the running system as a step relation), \<open>Metrics_Text\<close> (\<open>Metrics::gather\<close>,
    the text encoder and a scraper), \<open>Health\<close> (\<open>health.rs\<close>), \<open>Startup\<close> (\<open>RocksStorage::open\<close> and
    \<open>main.rs\<close> up to the running server).
  \<^item> \<open>Streams\<close>: arbitrary bytes on a connection as a sequence of frames, commands and rejected lines,
    in any pieces, on streams that may break, and what \<open>execute\<close> answers to them one after the other;
    \<open>Sessions\<close>: well-formed command streams as a special case, and a \<open>set\<close> followed by a \<open>get\<close>.
  \<^item> \<open>Process\<close>: the running process of \<open>main.rs\<close>, with the signal task, the health thread and the
    main task around the system of \<open>Server\<close>, as a step relation in which a panic aborts the process and
    is recorded with its place.
  \<^item> \<open>Concurrent\<close>: the operations of \<open>storage/rocks.rs\<close> as step machines, one database call, clock
    reading or counter update per step, and their interleavings with each other and with compactions.
  \<^item> \<open>Interleaved\<close>: the handlers of \<open>server/handler.rs\<close> as step machines over those, and the
    interleavings of any number of command executions.
  \<^item> \<open>Unit_Tests\<close>: the unit tests of the source, stated over the model.

  \<^bold>\<open>State and effects.\<close>  Structs are records, enums datatypes, integers words of their width where
  the value comes from outside; offsets that are bounded by the buffer are natural numbers.  A
  function that changes state takes and returns it.  The state of the storage holds the database
  handle, the two global counters and the number of clock readings; a clock is a function from the
  number of the reading to the time, so it may jump or run backwards.  Panics, errors and early
  returns are values.  The counters of \<open>metrics.rs\<close> are the sums of the increments the program makes, without a
  bound, where the crate's objects have 64 bits.

  \<^bold>\<open>Code outside the repository\<close> is a parameter, with its documented behaviour as a locale:
  \<open>memchr_crate\<close>, \<open>itoa_crate\<close>, \<open>rocksdb\<close> (reads return the contents, writes are atomic and may
  fail, a compaction drops only what the filter removed), \<open>tcp\<close> (what a write has sent),
  \<open>semaphore\<close>, \<open>prometheus\<close> (which names and buckets it accepts, and that a registry takes a name
  once), \<open>prometheus_text\<close> (one line for each registered object; with the registrations of
  \<open>Metrics::new\<close> it gives \<open>text_encoder\<close>, what the program relies on).  Each is interpreted by a
  reference implementation that can be run (\<open>memchr_loop\<close>, \<open>to_decimal\<close>, \<open>mem_rocksdb\<close> with injected
  faults, \<open>map_rocksdb\<close> without, \<open>mem_stream\<close>, \<open>ok_stream\<close>, \<open>nat_semaphore\<close>, \<open>names_registry\<close>,
  \<open>plain_encoder\<close>); the closed statements that accompany the properties are evaluated on them.  The
  model's own interfaces are the locales \<open>cache_store\<close> (what a storage promises, a sublocale of
  \<open>rocks_storage\<close>), \<open>petracache_platform\<close>, \<open>petracache_conn\<close> and \<open>petracache_system\<close>, which gather
  the parameters a layer depends on.  The \<open>BytesMut\<close> buffer of the \<open>bytes\<close> crate is the sequence of
  its bytes.

  \<^bold>\<open>What is shown.\<close>
  \<^item> Parser: parsing inverts printing; the resumed parse of a partial \<open>set\<close> equals the direct one; later
    bytes change no decision; consumed lengths are in bounds; numerals are read exactly; the exact
    inputs on which the 64-bit arithmetic makes it panic.
  \<^item> Replies: a client reads back exactly what was written; error replies are one line.
  \<^item> Values and storage: the format is a bijection; the TTL rules; lookups return what was stored until
    its deadline; lazy expiration and compaction are invisible.
  \<^item> Concurrency: a step machine run alone is the function of the source; every operation returns
    after a bounded number of its own steps; every answer is justified by contents and times of the
    call; complete headers are kept and no decoding error appears in any interleaving; a live entry
    survives everything but writes of its key; and what is lost for want of a lock.  The same for
    whole commands: alone they are \<open>execute\<close>, interleaved every reply is justified and every counter
    exact, key by key.
  \<^item> Handlers: every command is a step of the abstract cache, with exact metrics.
  \<^item> Connection: the inner loop ends; a session of commands in any pieces is answered command by
    command (the theorem \<open>session_replies\<close> below, which spans all layers), and how far it got when a
    write fails; what a \<open>get\<close> after a \<open>set\<close> shows at which reading of the clock
    (\<open>set_then_get_over_the_wire\<close>); what becomes of any bytes whatever (\<open>any_stream\<close>), with error recovery and \<open>quit\<close>; the
    stall on a lone carriage return, and the gauge.
  \<^item> Server: the connection limit and the value of the gauge are invariants of every reachable state;
    admission is exact.
  \<^item> Metrics: creating and registering them never panics; the values of all counters and of the gauge
    are read back from the scraped text, under the names of the registered objects
    (\<open>prometheus_text\<close>); the atomic counters count modulo \<open>2 ^ 64\<close>.
  \<^item> Health server: which connections are answered, in which order and how, when the thread ends, and
    how a silent client blocks it.
  \<^item> Configuration and start: the environment carries a configuration; every start does its steps in
    one order, with exactly which failures ending it and how (\<open>startup_order\<close>).
  \<^item> Process: short of a panic it stops only on a signal, a signal brings it down in a bounded number
    of steps, and live connections are abandoned then; it panics only on bytes that bring a connection
    to one of three \<open>set\<close> lengths, which one request can, or while installing the handler of SIGTERM;
    the health endpoint reports the state of the running server.
  \<^item> The unit tests of the repository succeed on the model, under stated conditions on the database
    and the clock.

  \<^bold>\<open>Bounds.\<close>  Buffers are at most \<open>isize_max\<close> bytes, the limit Rust puts on any allocation; statements
  about parsing carry that premise.  There is no fuel: the inner loop is a partial function and its
  termination is the theorem \<open>inner_loop_terminates\<close>.

  \<^bold>\<open>What is not modelled.\<close>  Logging, the allocator and the fairness of the runtime's scheduling;
  observations of the latency histogram (there are none); buffer capacities; and writes on a health
  connection that never return.  In the step relation of \<open>Server\<close> one event of a connection is one step;
  finer interleavings are treated in \<open>Concurrent\<close>, for the operations of the storage, where a compaction
  is one step, and in \<open>Interleaved\<close>, for the handlers, where counting one result and writing its part of
  the reply is one step.  \<open>lib.rs\<close> and the two
  \<open>mod.rs\<close> files of \<open>protocol\<close> and \<open>storage\<close> hold module declarations only.
\<close>

section \<open>Sessions\<close>

text \<open>
  C1: The server answers a session: a client sends any sequence of well-formed commands (without
  \<open>quit\<close>), and the network delivers the bytes in any pieces, cut anywhere.  Then the connection
  handles every command, in order and exactly once, as one step of the abstract cache, namely the one
  \<open>execute\<close> takes on the storage the previous command left; the client receives exactly the replies of
  those steps, in order, without those of \<open>noreply\<close> commands; and the buffer is empty at the end.
\<close>

theorem session_replies:
  assumes "petracache_conn P contents W sent" and "accepts_writes W"
    and "concat chunks = render_all cmds" and "session cmds" and "[] \<notin> set chunks"
    and "length (render_all cmds) \<le> isize_max"
    and "entries_wf (contents (st_db (srv_storage srv)))"
  shows "\<exists>srv' c' rs.
    handle P W (map (\<lambda>b. Read (Inr b) :: 're conn_event) chunks) srv stream =
      Some (Done (Waiting, (srv', c'))) \<and>
    cache_trace (pf_clock P) (srv_clock srv) cmds (stored_map (contents (st_db (srv_storage srv)))) rs
      (stored_map (contents (st_db (srv_storage srv')))) (srv_clock srv') \<and>
    run_frames P (map Cmd cmds) (srv_storage srv) = (rs, srv_storage srv') \<and>
    sent (cn_stream c') = sent stream @ sent_replies cmds rs \<and> cn_read_buf c' = []"
  using petracache_conn.session_pieces [OF assms] by blast

theorem session_replies_witness:
  "\<exists>srv' c' rs.
    handle (ref_platform (\<lambda>i. 0)) ok_stream
      [Read (Inr (bs ''get'')), Read (Inr (bs '' a'' @ crlf)) :: unit conn_event] (ref_server mem_empty) [] =
      Some (Done (Waiting, (srv', c'))) \<and>
    cn_stream c' = sent_replies [Get [bs ''a'']] rs \<and> cn_read_buf c' = []"
proof -
  have wf: "entries_wf (fst (st_db (srv_storage (ref_server mem_empty))))"
    by (simp add: ref_server_def fresh_storage_def mem_empty_def entries_wf_def)
  have c: "concat [bs ''get'', bs '' a'' @ crlf] = render_all [Get [bs ''a'']]"
    and s: "session [Get [bs ''a'']]" and n: "[] \<notin> set [bs ''get'', bs '' a'' @ crlf]"
    and l: "length (render_all [Get [bs ''a'']]) \<le> isize_max"
    by (simp_all add: render_def bs_def is_valid_key_def MAX_KEY_LENGTH_def isize_max_def)
  from session_replies [OF ok_conn.petracache_conn_axioms ok_stream_accepts c s n l wf,
      where 're = unit, of "\<lambda>i. 0" "[]"]
  show ?thesis by (simp del: handle_events.simps) blast
qed

text \<open>
  C2: What a client stores it reads back, over the wire, until it expires: after \<open>set\<close> and \<open>get\<close> of the
  same key, sent in any pieces, the first reply (unless the client asked for silence) is \<open>STORED\<close> if
  the database took the write and its error otherwise.  If it did, the second reply is the database's
  error, if the lookup failed, and else the item with its flags and data, byte for byte, exactly if
  the clock, as the \<open>get\<close> reads it, has not reached the deadline: the \<open>exptime\<close> itself, or, for a
  relative one, the clock as the \<open>set\<close> read it plus \<open>exptime\<close> seconds.  The reading of the \<open>set\<close> is the
  session's first, and that of the \<open>get\<close> the first, or the second if the \<open>set\<close> took one.
\<close>

theorem set_then_get_over_the_wire:
  assumes "petracache_conn P contents W sent" and "accepts_writes W"
    and "concat chunks = render_all [Set k f x d nr, Get [k]]" and "is_valid_key k"
    and "[] \<notin> set chunks" and "length (render_all [Set k f x d nr, Get [k]]) \<le> isize_max"
    and "entries_wf (contents (st_db (srv_storage srv)))"
    and "v = with_expire_at f (deadline (reading (pf_clock P) (srv_clock srv)) x) d"
    and "now = reading (pf_clock P)
      (if x \<noteq> 0 \<and> unat x \<le> 30 * 24 * 60 * 60 then srv_clock srv + 1 else srv_clock srv)"
    and "db_put_opt (pf_rocksdb P) (st_db (srv_storage srv)) k (encode v) (st_write_opts (srv_storage srv)) = (put, db)"
  shows "\<exists>srv' c' r1 r2.
    handle P W (map (\<lambda>b. Read (Inr b) :: 're conn_event) chunks) srv stream =
      Some (Done (Waiting, (srv', c'))) \<and>
    sent (cn_stream c') = sent stream @ (if nr then [] else r1) @ r2 \<and>
    (case put of
       Inl e \<Rightarrow> r1 = server_error_line (storage_error_to_string (pf_db_msg P) (RocksDb e))
     | Inr u \<Rightarrow> r1 = bs ''STORED'' @ crlf \<and>
         (case fst (db_get (pf_rocksdb P) db k) of
            Inl e \<Rightarrow> r2 = server_error_line (storage_error_to_string (pf_db_msg P) (RocksDb e))
          | Inr b \<Rightarrow> read_reply r2 = Some (if expired_at now v then [] else [(k, f, d)], [])))"
proof -
  let ?cmds = "[Set k f x d nr, Get [k]]" and ?s = "srv_storage srv"
  let ?s1 = "?s\<lparr>st_clock := (if x \<noteq> 0 \<and> x \<le> MAX_RELATIVE_TTL then st_clock ?s + 1 else st_clock ?s), st_db := db\<rparr>"
  have now: "now = reading (pf_clock P) (st_clock ?s1)"
    using assms(9) by (simp add: MAX_RELATIVE_TTL_def word_le_nat_alt)
  have "session ?cmds" using assms(4) by simp
  from petracache_conn.session_pieces [OF assms(1-3) this assms(5-7)]
  obtain srv' c' rs where
    h: "handle P W (map (\<lambda>b. Read (Inr b) :: 're conn_event) chunks) srv stream = Some (Done (Waiting, (srv', c')))"
      and run: "run_frames P (map Cmd ?cmds) ?s = (rs, srv_storage srv')"
      and out: "sent (cn_stream c') = sent stream @ sent_replies ?cmds rs" by blast
  obtain r1 r2 where rs: "rs = [r1, r2]" and e1: "exec_reply P (Set k f x d nr) ?s = (r1, ?s1)"
      and e2: "fst (exec_reply P (Get [k]) ?s1) = r2"
    using run exec_set [OF assms(8,10), of nr] by (auto simp: Let_def split_def)
  have d: "\<forall>(k', f', d') \<in> set (if E then [] else [(k, f, d)]). is_valid_key k' \<and> length d' < 2 ^ 64" for E
    using assms(4,6) by (auto simp: isize_max_def render_def)
  have "case put of
      Inl e \<Rightarrow> r1 = server_error_line (storage_error_to_string (pf_db_msg P) (RocksDb e))
    | Inr u \<Rightarrow> r1 = bs ''STORED'' @ crlf \<and>
        (case fst (db_get (pf_rocksdb P) db k) of
           Inl e \<Rightarrow> r2 = server_error_line (storage_error_to_string (pf_db_msg P) (RocksDb e))
         | Inr b \<Rightarrow> read_reply r2 = Some (if expired_at now v then [] else [(k, f, d)], []))"
  proof (cases put)
    case (Inr u)
    obtain get db' where g: "db_get (pf_rocksdb P) (st_db ?s1) k = (get, db')" by fastforce
    have v: "sv_flags v = f" "sv_data v = d" using assms(8) by (simp_all add: with_expire_at_def)
    have "contents (st_db ?s1) k = Some (encode v)"
      using petracache_conn.put_stored [OF assms(1)] assms(10) Inr by simp
    from petracache_conn.exec_get_stored [OF assms(1) g this]
    have "r2 = (case get of
        Inl e \<Rightarrow> server_error_line (storage_error_to_string (pf_db_msg P) (RocksDb e))
      | Inr b \<Rightarrow> reply_text (if expired_at now v then [] else [(k, f, d)]))"
      unfolding e2 now [symmetric] v .
    moreover have "r1 = bs ''STORED'' @ crlf" using e1 exec_set [OF assms(8,10), of nr] Inr by simp
    moreover have "fst (db_get (pf_rocksdb P) db k) = get" using g by simp
    ultimately show ?thesis
      using Inr read_reply_text [OF d, of "expired_at now v" "[]"]
      by (cases get) (simp_all only: sum.case append_Nil2 HOL.simp_thms)
  qed (use e1 exec_set [OF assms(8,10), of nr] in simp)
  moreover have "sent (cn_stream c') = sent stream @ (if nr then [] else r1) @ r2" using out rs by simp
  ultimately show ?thesis using h by blast
qed

text \<open>A value with a TTL of 60 seconds, and a clock that has moved on by 60 when the \<open>get\<close> looks.\<close>

theorem set_then_get_over_the_wire_witness:
  "\<exists>srv' c' r2.
    handle (ref_platform (\<lambda>i. if i = 0 then 0 else 60000000000)) ok_stream
      [Read (Inr (render_all [Set [107] 3 60 [13, 10] False, Get [[107]]])) :: unit conn_event]
      (ref_server mem_empty) [] = Some (Done (Waiting, (srv', c'))) \<and>
    cn_stream c' = bs ''STORED'' @ crlf @ r2 \<and> read_reply r2 = Some ([], [])"
proof -
  let ?cmds = "[Set [107] 3 60 [13, 10] False, Get [[107]]]" and ?clk = "\<lambda>i. if i = 0 then 0 else 60000000000"
  let ?srv = "ref_server mem_empty" and ?v = "with_expire_at 3 60 [13, 10]"
  have wf: "entries_wf (fst (st_db (srv_storage ?srv)))"
    by (simp add: ref_server_def fresh_storage_def mem_empty_def entries_wf_def)
  have c: "concat [render_all ?cmds] = render_all ?cmds" by simp
  have k: "is_valid_key [107]" and n: "[] \<notin> set [render_all ?cmds]"
    and l: "length (render_all ?cmds) \<le> isize_max"
    by (simp_all add: run_simps render_def noreply_word_def isize_max_def)
  have v: "?v = with_expire_at 3 (deadline (reading (pf_clock (ref_platform ?clk)) (srv_clock ?srv)) 60) [13, 10]"
    by (simp add: run_simps deadline_def)
  have now: "60 = reading (pf_clock (ref_platform ?clk))
      (if (60 :: u64) \<noteq> 0 \<and> unat (60 :: u64) \<le> 30 * 24 * 60 * 60 then srv_clock ?srv + 1 else srv_clock ?srv)"
    by (simp add: run_simps)
  obtain db where put: "db_put_opt (pf_rocksdb (ref_platform ?clk)) (st_db (srv_storage ?srv)) [107] (encode ?v)
      (st_write_opts (srv_storage ?srv)) = (Inr (), db)"
    and get: "fst (db_get (pf_rocksdb (ref_platform ?clk)) db [107]) = Inr (Some (encode ?v))"
    by (simp add: run_simps)
  have e: "expired_at 60 ?v" by (simp add: expired_at_def with_expire_at_def)
  from set_then_get_over_the_wire [OF ok_conn.petracache_conn_axioms ok_stream_accepts c k n l wf v now put,
      where 're = unit, of "[]"]
  show ?thesis unfolding get by (simp add: e del: handle_events.simps)
qed

end
